theory Spec2Isabelle
  imports Complex_Main "HOL-Library.Word" "HOL-Library.Log_Nat"
begin

unbundle bit_operations_syntax

section \<open>GCR codec (class Disk, static tables)\<close>

type_synonym u8 = "8 word"
type_synonym u16 = "16 word"

text \<open>The encoding table \<open>Disk::gcr\<close>: 4 data bits to 5 GCR bits.\<close>

definition gcr :: "u8 list" where
  "gcr = [0x0a, 0x0b, 0x12, 0x13,
          0x0e, 0x0f, 0x16, 0x17,
          0x09, 0x19, 0x1a, 0x1b,
          0x0d, 0x1d, 0x1e, 0x15]"

text \<open>The inverse table \<open>Disk::invgcr\<close>: invalid patterns are marked with 255.\<close>

definition invgcr :: "u8 list" where
  "invgcr = [255, 255, 255, 255,
             255, 255, 255, 255,
             255,   8,   0,   1,
             255,  12,   4,   5,
             255, 255,   2,   3,
             255,  15,   6,   7,
             255,   9,  10,  11,
             255,  13,  14, 255]"

text \<open>
  \<open>bin2gcr\<close>, \<open>gcr2bin\<close> and \<open>isGcr\<close> assert that their argument indexes the table;
  a failed assertion is the result \<open>None\<close>.
\<close>

definition bin2gcr :: "u8 \<Rightarrow> u8 option" where
  "bin2gcr v = (if v < 16 then Some (gcr ! unat v) else None)"

definition gcr2bin :: "u8 \<Rightarrow> u8 option" where
  "gcr2bin v = (if v < 32 then Some (invgcr ! unat v) else None)"

definition isGcr :: "u8 \<Rightarrow> bool option" where
  "isGcr v = (if v < 32 then Some (invgcr ! unat v \<noteq> 0xFF) else None)"

section \<open>The bit-stream disk (class Disk)\<close>

text \<open>
  The disk properties and the disk data of class \<open>Disk\<close>. The types \<open>DiskData\<close> and
  \<open>DiskLength\<close> of the two data members are not under src/: \<open>data\<close> is read as
  \<open>data.halftrack[ht][byte]\<close>, and \<open>length_ht\<close> stands for the member \<open>length\<close>, "length
  information for each halftrack", the 16-bit value that \<open>lengthOfHalftrack\<close> returns.
\<close>

record Disk =
  writeProtected :: bool
  modified :: bool
  data :: "nat \<Rightarrow> nat \<Rightarrow> u8"
  length_ht :: "nat \<Rightarrow> u16"

definition isWriteProtected :: "Disk \<Rightarrow> bool" where
  "isWriteProtected d = writeProtected d"

definition setWriteProtection :: "bool \<Rightarrow> Disk \<Rightarrow> Disk" where
  "setWriteProtection b d = d\<lparr>writeProtected := b\<rparr>"

definition toggleWriteProtection :: "Disk \<Rightarrow> Disk" where
  "toggleWriteProtection d = d\<lparr>writeProtected := \<not> writeProtected d\<rparr>"

text \<open>
  Modelled from the spec: the body of \<open>Disk::setModified\<close> is not under src/. The flag
  "modified" is "set whenever a write lands on the surface"; the notification it sends is
  left out, as the message transport is.
\<close>

definition setModified :: "bool \<Rightarrow> Disk \<Rightarrow> Disk" where
  "setModified b d = d\<lparr>modified := b\<rparr>"

text \<open>
  Modelled from the spec: the body of \<open>Disk::lengthOfHalftrack\<close> is not under src/. It
  "returns the length of a halftrack in bits".
\<close>

definition lengthOfHalftrack :: "Disk \<Rightarrow> nat \<Rightarrow> nat" where
  "lengthOfHalftrack d ht = unat (length_ht d ht)"

text \<open>
  Modelled from the spec: the body of \<open>Disk::isValidHeadPos\<close> is not under src/. "A valid
  head position satisfies \<open>0 \<le> position < length[halftrack]\<close>", on one of the halftracks
  1 to 84.
\<close>

definition isValidHeadPos :: "Disk \<Rightarrow> nat \<Rightarrow> nat \<Rightarrow> bool" where
  "isValidHeadPos d ht pos = (1 \<le> ht \<and> ht \<le> 84 \<and> pos < lengthOfHalftrack d ht)"

text \<open>
  Modelled from the spec: the body of \<open>Disk::wrap\<close> is not under src/. It "fixes a wrapped
  over head position": the position is "auto-wrapped into \<open>[0, length)\<close>", "position
  arithmetic wraps modulo length".
\<close>

definition wrap :: "Disk \<Rightarrow> nat \<Rightarrow> nat \<Rightarrow> nat" where
  "wrap d ht pos = pos mod lengthOfHalftrack d ht"

text \<open>
  Reading and writing a single bit. The variants whose names begin with an underscore in
  the source (here they end in a prime) assert a valid head position, \<open>None\<close> when the
  assertion fails; the others wrap the position first.
\<close>

definition readBitFromHalftrack' :: "Disk \<Rightarrow> nat \<Rightarrow> nat \<Rightarrow> bool option" where
  "readBitFromHalftrack' d ht pos =
     (if isValidHeadPos d ht pos
      then Some (data d ht (pos div 8) AND drop_bit (pos mod 8) 0x80 \<noteq> 0)
      else None)"

definition readBitFromHalftrack :: "Disk \<Rightarrow> nat \<Rightarrow> nat \<Rightarrow> bool option" where
  "readBitFromHalftrack d ht pos = readBitFromHalftrack' d ht (wrap d ht pos)"

definition writeBitToHalftrack' :: "Disk \<Rightarrow> nat \<Rightarrow> nat \<Rightarrow> bool \<Rightarrow> Disk option" where
  "writeBitToHalftrack' d ht pos b =
     (if isValidHeadPos d ht pos
      then Some (d\<lparr>data := (data d)(ht := (data d ht)(pos div 8 :=
             (if b then data d ht (pos div 8) OR drop_bit (pos mod 8) 0x80
              else data d ht (pos div 8) AND
                   ucast (drop_bit (pos mod 8) (0xFF7F :: 16 word)))))\<rparr>)
      else None)"

definition writeBitToHalftrack :: "Disk \<Rightarrow> nat \<Rightarrow> nat \<Rightarrow> bool \<Rightarrow> Disk option" where
  "writeBitToHalftrack d ht pos b = writeBitToHalftrack' d ht (wrap d ht pos) b"

text \<open>
  Modelled from the spec: the body of \<open>Disk::clearDisk\<close> is not under src/. Its declaration
  says that it "reverts to a factory-new disk. All disk data gets erased and the copy
  protection mark removed", and the spec that \<open>clear\<close> "zeroes a halftrack or the whole disk
  and resets to default track lengths". A factory-new disk has the initial values of the
  class (\<open>writeProtected = false\<close>, \<open>modified = false\<close>). The default lengths are not under
  src/ and are the parameter \<open>dflt\<close>.
\<close>

definition clearDisk :: "(nat \<Rightarrow> u16) \<Rightarrow> Disk \<Rightarrow> Disk" where
  "clearDisk dflt d =
     d\<lparr>writeProtected := False, modified := False, data := (\<lambda>ht i. 0), length_ht := dflt\<rparr>"

text \<open>
  Modelled from the spec: \<open>save\<close> and \<open>load\<close> belong to the serialisation framework,
  which is not under src/. They write and read the persistent items that
  \<open>Disk::applyToPersistentItems\<close> lists, in its order: \<open>writeProtected\<close>, \<open>modified\<close>,
  \<open>data\<close>, \<open>length\<close>.
\<close>

type_synonym DiskItems = "bool \<times> bool \<times> (nat \<Rightarrow> nat \<Rightarrow> u8) \<times> (nat \<Rightarrow> u16)"

definition save :: "Disk \<Rightarrow> DiskItems" where
  "save d = (writeProtected d, modified d, data d, length_ht d)"

definition load :: "DiskItems \<Rightarrow> Disk \<Rightarrow> Disk" where
  "load buffer d = (case buffer of (wp, m, dt, len) \<Rightarrow>
     d\<lparr>writeProtected := wp, modified := m, data := dt, length_ht := len\<rparr>)"

section \<open>The drive controller (class Drive)\<close>

datatype InsertionStatus =
  DISK_FULLY_EJECTED | DISK_PARTIALLY_INSERTED | DISK_FULLY_INSERTED | DISK_PARTIALLY_EJECTED

text \<open>
  Modelled from the spec: the members of class \<open>Drive\<close> are declared in \<open>Drive.h\<close>, which
  is not under src/. The record holds the members that \<open>Drive.cpp\<close> reads and writes,
  under their names there. The debounce counter and the two counters of the logic board
  are 64-bit words; the byte ready counter and the write shift register are bytes; the
  read shift register has 16 bits, which its mask \<open>0x3FF\<close> in \<open>executeUF4\<close> needs (the
  spec speaks of two 8-bit shift registers); the three times, in 1/10 ns, are 64-bit
  words: \<open>execute\<close> adds a \<open>u64\<close> to \<open>elapsedTime\<close> and compares it, cast to \<open>i64\<close>, with
  the two deadlines, which are read as signed numbers (\<open>sint\<close>). The I/O
  chip \<open>via2\<close> is an opaque collaborator: the model keeps the three lines the drive reads
  from it (\<open>getCA2\<close>, \<open>getCB2\<close>, \<open>getPA\<close>) and the list of the calls of its
  edge-triggered input \<open>CA1action\<close>, latest call last. The pending disk is a pointer in
  the source; the model holds the disk it points to, \<open>None\<close> for the null pointer.
  Messages to the host and the suspend/resume brackets are left out.
\<close>

record Drive =
  insertionStatus :: InsertionStatus
  diskToInsert :: "Disk option"
  diskChangeCounter :: "64 word"
  disk :: Disk
  halftrack :: nat
  offset :: nat
  spinning :: bool
  zone :: nat
  counterUF4 :: "64 word"
  carryCounter :: "64 word"
  byteReadyCounter :: u8
  readShiftreg :: u16
  writeShiftreg :: u8
  sync :: bool
  byteReady :: bool
  elapsedTime :: "64 word"
  nextClock :: "64 word"
  nextCarry :: "64 word"
  via2_CA2 :: bool
  via2_CB2 :: bool
  via2_PA :: u8
  via2_CA1actions :: "bool list"

subsection \<open>Changing disks\<close>

definition insertDisk :: "Disk option \<Rightarrow> Drive \<Rightarrow> Drive" where
  "insertDisk otherDisk s =
     (if diskToInsert s = None
      then s\<lparr>diskToInsert := otherDisk, diskChangeCounter := 1\<rparr>
      else s)"

definition ejectDisk :: "Drive \<Rightarrow> Drive" where
  "ejectDisk s =
     (if insertionStatus s = DISK_FULLY_INSERTED \<and> diskToInsert s = None
      then s\<lparr>diskChangeCounter := 1\<rparr>
      else s)"

text \<open>
  \<open>vsyncHandler\<close> first decrements the counter and returns unless it has reached zero.
  In state \<open>DISK_PARTIALLY_INSERTED\<close> the source dereferences the pending disk; a null
  pointer there is the result \<open>None\<close>.
\<close>

definition vsyncHandler :: "(nat \<Rightarrow> u16) \<Rightarrow> Drive \<Rightarrow> Drive option" where
  "vsyncHandler dflt s =
     (let s1 = s\<lparr>diskChangeCounter := diskChangeCounter s - 1\<rparr> in
      if diskChangeCounter s1 \<noteq> 0 then Some s1
      else case insertionStatus s1 of
        DISK_FULLY_INSERTED \<Rightarrow>
          Some (s1\<lparr>insertionStatus := DISK_PARTIALLY_EJECTED,
                    disk := clearDisk dflt (disk s1),
                    diskChangeCounter := 17\<rparr>)
      | DISK_PARTIALLY_EJECTED \<Rightarrow>
          Some (s1\<lparr>insertionStatus := DISK_FULLY_EJECTED, diskChangeCounter := 17\<rparr>)
      | DISK_FULLY_EJECTED \<Rightarrow>
          (case diskToInsert s1 of
             None \<Rightarrow> Some s1
           | Some d \<Rightarrow>
               Some (s1\<lparr>insertionStatus := DISK_PARTIALLY_INSERTED, diskChangeCounter := 17\<rparr>))
      | DISK_PARTIALLY_INSERTED \<Rightarrow>
          (case diskToInsert s1 of
             None \<Rightarrow> None
           | Some d \<Rightarrow>
               Some (s1\<lparr>insertionStatus := DISK_FULLY_INSERTED,
                         disk := load (save d) (disk s1),
                         diskToInsert := None\<rparr>)))"

text \<open>\<open>ticks dflt n\<close> calls the handler \<open>n\<close> times, once per vertical sync.\<close>

fun ticks :: "(nat \<Rightarrow> u16) \<Rightarrow> nat \<Rightarrow> Drive \<Rightarrow> Drive option" where
  "ticks dflt 0 s = Some s"
| "ticks dflt (Suc n) s =
     (case vsyncHandler dflt s of None \<Rightarrow> None | Some s' \<Rightarrow> ticks dflt n s')"

text \<open>
  The drive after \<open>_initialize\<close> and \<open>_reset\<close>: no disk, the surface cleared, the head on
  halftrack 41, every other item reset to zero.
\<close>

definition initialDrive :: "(nat \<Rightarrow> u16) \<Rightarrow> Drive" where
  "initialDrive dflt =
     \<lparr>insertionStatus = DISK_FULLY_EJECTED, diskToInsert = None, diskChangeCounter = 0,
      disk = clearDisk dflt \<lparr>writeProtected = False, modified = False,
                              data = (\<lambda>ht i. 0), length_ht = (\<lambda>ht. 0)\<rparr>,
      halftrack = 41, offset = 0, spinning = False, zone = 0,
      counterUF4 = 0, carryCounter = 0, byteReadyCounter = 0,
      readShiftreg = 0, writeShiftreg = 0, sync = False, byteReady = False,
      elapsedTime = 0, nextClock = 0, nextCarry = 0,
      via2_CA2 = False, via2_CB2 = False, via2_PA = 0, via2_CA1actions = []\<rparr>"

subsection \<open>The byte-ready line\<close>

text \<open>
  Modelled from the spec: \<open>VIA2::CA1action\<close> is not under src/. It is the "edge-triggered
  input" of the connected chip; the model appends the call to the list of calls.
\<close>

definition CA1action :: "bool \<Rightarrow> Drive \<Rightarrow> Drive" where
  "CA1action b s = s\<lparr>via2_CA1actions := via2_CA1actions s @ [b]\<rparr>"

definition updateByteReady :: "Drive \<Rightarrow> Drive" where
  "updateByteReady s =
     (let ca2 = via2_CA2 s;
          qb = (counterUF4 s AND 0x02 \<noteq> 0);
          ue3 = (byteReadyCounter s = 7);
          newByteReady = (\<not> (ca2 \<and> \<not> qb \<and> ue3))
      in if byteReady s \<noteq> newByteReady
         then CA1action newByteReady (s\<lparr>byteReady := newByteReady\<rparr>)
         else s)"

definition raiseByteReady :: "Drive \<Rightarrow> Drive" where
  "raiseByteReady s =
     (if \<not> byteReady s then CA1action True (s\<lparr>byteReady := True\<rparr>) else s)"

subsection \<open>The read/write logic\<close>

text \<open>
  Modelled from the spec: \<open>readMode\<close>, \<open>writeMode\<close>, \<open>getLightBarrier\<close>,
  \<open>readBitFromHead\<close>, \<open>writeBitToHead\<close> and \<open>rotateDisk\<close> are declared in \<open>Drive.h\<close>, which
  is not under src/. The drive is "in read mode" or "in write mode", a line of the I/O
  chip (\<open>CB2\<close>). The light barrier is blocked while the disk is half in or half out (the
  comments of \<open>vsyncHandler\<close>) and by a write-protected disk: a bit is written "only if in
  write mode and not write-protected". The head reads and writes the bit of the current
  halftrack at the current offset, and "the disk head position advances by one bit,
  wrapping at halftrack length".
\<close>

definition readMode :: "Drive \<Rightarrow> bool" where
  "readMode s = via2_CB2 s"

definition writeMode :: "Drive \<Rightarrow> bool" where
  "writeMode s = (\<not> readMode s)"

definition getLightBarrier :: "Drive \<Rightarrow> bool" where
  "getLightBarrier s =
     (insertionStatus s = DISK_PARTIALLY_INSERTED \<or>
      insertionStatus s = DISK_PARTIALLY_EJECTED \<or>
      isWriteProtected (disk s))"

definition readBitFromHead :: "Drive \<Rightarrow> bool option" where
  "readBitFromHead s = readBitFromHalftrack (disk s) (halftrack s) (offset s)"

definition writeBitToHead :: "bool \<Rightarrow> Drive \<Rightarrow> Drive option" where
  "writeBitToHead b s =
     (case writeBitToHalftrack (disk s) (halftrack s) (offset s) b of
        None \<Rightarrow> None
      | Some d \<Rightarrow> Some (s\<lparr>disk := d\<rparr>))"

definition rotateDisk :: "Drive \<Rightarrow> Drive" where
  "rotateDisk s =
     (if offset s + 1 \<ge> lengthOfHalftrack (disk s) (halftrack s)
      then s\<lparr>offset := 0\<rparr>
      else s\<lparr>offset := offset s + 1\<rparr>)"

text \<open>
  \<open>executeUF4\<close>, one bit-cell step, in the order of the source and cut at its comments:
  the counters are increased; every fourth call a bit comes in and the disk rotates
  (\<open>uf4_incoming\<close>); the SYNC signal is updated (\<open>uf4_sync\<close>); then the lower two bits of
  counter UF4 select the case of the \<open>switch\<close>: \<open>updateByteReady\<close> for 0 and 1, steps
  (2) to (5) for 2 (\<open>uf4_phase2\<close>), step (6) for 3 (\<open>uf4_phase3\<close>). A failed assertion of
  the disk is \<open>None\<close>.
\<close>

definition uf4_incoming :: "Drive \<Rightarrow> Drive option" where
  "uf4_incoming s =
     (if carryCounter s mod 4 = 0 then
        (if readMode s then
           (case readBitFromHead s of
              None \<Rightarrow> None
            | Some b \<Rightarrow> Some (rotateDisk (if b then s\<lparr>counterUF4 := 0\<rparr> else s)))
         else Some (rotateDisk s))
      else Some s)"

definition uf4_sync :: "Drive \<Rightarrow> Drive" where
  "uf4_sync s =
     (let s1 = s\<lparr>sync := (readShiftreg s AND 0x3FF \<noteq> 0x3FF \<or> writeMode s)\<rparr>
      in if \<not> sync s1 then s1\<lparr>byteReadyCounter := 0\<rparr> else s1)"

definition uf4_phase2 :: "Drive \<Rightarrow> Drive option" where
  "uf4_phase2 s =
     (let s1 = raiseByteReady s;
          s2 = s1\<lparr>byteReadyCounter :=
                    (if sync s1 then of_nat ((unat (byteReadyCounter s1) + 1) mod 8) else 0)\<rparr>
      in case (if writeMode s2 \<and> \<not> getLightBarrier s2
               then (case writeBitToHead (writeShiftreg s2 AND 0x80 \<noteq> 0) s2 of
                       None \<Rightarrow> None
                     | Some s3 \<Rightarrow> Some (s3\<lparr>disk := setModified True (disk s3)\<rparr>))
               else Some s2) of
           None \<Rightarrow> None
         | Some s4 \<Rightarrow>
             (let s5 = s4\<lparr>writeShiftreg := push_bit 1 (writeShiftreg s4)\<rparr>;
                  s6 = s5\<lparr>readShiftreg := push_bit 1 (readShiftreg s5)\<rparr>
              in Some (s6\<lparr>readShiftreg := readShiftreg s6 OR
                              (if counterUF4 s6 AND 0x0C = 0 then 1 else 0)\<rparr>)))"

definition uf4_phase3 :: "Drive \<Rightarrow> Drive" where
  "uf4_phase3 s = (if byteReadyCounter s = 7 then s\<lparr>writeShiftreg := via2_PA s\<rparr> else s)"

definition executeUF4 :: "Drive \<Rightarrow> Drive option" where
  "executeUF4 s =
     (case uf4_incoming (s\<lparr>counterUF4 := counterUF4 s + 1,
                            carryCounter := carryCounter s + 1\<rparr>) of
        None \<Rightarrow> None
      | Some s1 \<Rightarrow>
          (let s2 = uf4_sync s1; phase = counterUF4 s2 AND 0x03
           in if phase = 0x00 \<or> phase = 0x01 then Some (updateByteReady s2)
              else if phase = 0x02 then uf4_phase2 s2
              else Some (uf4_phase3 s2)))"

subsection \<open>Head stepping\<close>

text \<open>
  \<open>moveHeadUp\<close> and \<open>moveHeadDown\<close> compute the new offset in single-precision floating
  point, \<open>(HeadPos)(((float)offset / (float)oldLength) * newLength)\<close>. A single-precision
  number is modelled by the rational number it stands for. \<open>toFloat x\<close> is the
  single-precision number nearest to \<open>x\<close>, the one with the even significand if two are
  equally near: every conversion to \<open>float\<close>, the division and the multiplication yield
  their exact result rounded in this way. With the exponent \<open>ilog2 \<bar>x\<bar>\<close> of \<open>x\<close>, the \<open>e\<close>
  with \<open>2^e \<le> \<bar>x\<bar> < 2^(e+1)\<close>, the result is the multiple of \<open>2^(e-23)\<close> nearest to \<open>x\<close>,
  which has a significand of 24 bits. The range of the exponent is not modelled: the
  operands are an offset (a signed number of 64 bits, not negative) and two lengths of 16
  bits, so every value other than zero lies between \<open>2^-16\<close> and \<open>2^79\<close>, far from
  underflow and overflow.
\<close>

definition ilog2 :: "rat \<Rightarrow> int" where
  "ilog2 x = (if 1 \<le> x then int (floorlog 2 (nat \<lfloor>x\<rfloor>)) - 1
              else - int (floorlog 2 (nat (\<lceil>1 / x\<rceil> - 1))))"

definition roundToEven :: "rat \<Rightarrow> int" where
  "roundToEven y =
     (let f = \<lfloor>y\<rfloor>; r = y - of_int f
      in if r < 1 / 2 then f else if 1 / 2 < r then f + 1 else if even f then f else f + 1)"

definition toFloat :: "rat \<Rightarrow> rat" where
  "toFloat x =
     (if x = 0 then 0
      else let e = ilog2 \<bar>x\<bar> - 23
           in of_int (roundToEven (x / power_int 2 e)) * power_int 2 e)"

text \<open>
  The expression for the new offset. A halftrack of length zero makes the quotient
  infinite or not a number, and its conversion to an integer is undefined: \<open>None\<close>. The
  conversion to \<open>HeadPos\<close> cuts off the fraction.
\<close>

definition rescale :: "nat \<Rightarrow> nat \<Rightarrow> nat \<Rightarrow> nat option" where
  "rescale pos oldLength newLength =
     (if oldLength = 0 then None
      else let position = toFloat (toFloat (of_nat pos) / toFloat (of_nat oldLength))
           in Some (nat \<lfloor>toFloat (position * toFloat (of_nat newLength))\<rfloor>))"

text \<open>
  The two head steps take the expression as the parameter \<open>scale\<close>, so that what does not
  depend on the rounding holds for every \<open>scale\<close>; the functions of the source are
  \<open>moveHeadUp rescale\<close> and \<open>moveHeadDown rescale\<close>. The assertion of a valid head position
  that ends them is \<open>None\<close> when it fails. \<open>exactOffset\<close> is the offset rescaled by the ratio
  of the new to the old length, without rounding.
\<close>

definition moveHeadUp ::
  "(nat \<Rightarrow> nat \<Rightarrow> nat \<Rightarrow> nat option) \<Rightarrow> Drive \<Rightarrow> Drive option" where
  "moveHeadUp scale s =
     (if halftrack s < 84
      then (case scale (offset s) (lengthOfHalftrack (disk s) (halftrack s))
                       (lengthOfHalftrack (disk s) (halftrack s + 1)) of
              None \<Rightarrow> None
            | Some pos \<Rightarrow>
                (let s1 = s\<lparr>halftrack := halftrack s + 1, offset := pos\<rparr>
                 in if isValidHeadPos (disk s1) (halftrack s1) (offset s1) then Some s1 else None))
      else if isValidHeadPos (disk s) (halftrack s) (offset s) then Some s else None)"

definition moveHeadDown ::
  "(nat \<Rightarrow> nat \<Rightarrow> nat \<Rightarrow> nat option) \<Rightarrow> Drive \<Rightarrow> Drive option" where
  "moveHeadDown scale s =
     (if halftrack s > 1
      then (case scale (offset s) (lengthOfHalftrack (disk s) (halftrack s))
                       (lengthOfHalftrack (disk s) (halftrack s - 1)) of
              None \<Rightarrow> None
            | Some pos \<Rightarrow>
                (let s1 = s\<lparr>halftrack := halftrack s - 1, offset := pos\<rparr>
                 in if isValidHeadPos (disk s1) (halftrack s1) (offset s1) then Some s1 else None))
      else if isValidHeadPos (disk s) (halftrack s) (offset s) then Some s else None)"

definition exactOffset :: "nat \<Rightarrow> nat \<Rightarrow> nat \<Rightarrow> rat" where
  "exactOffset pos oldLength newLength = of_nat pos * of_nat newLength / of_nat oldLength"

subsection \<open>The dual-clock execution loop\<close>

text \<open>
  \<open>execute\<close> adds the duration to the elapsed time and fires the nearer of the two
  deadlines until both have reached it. The table \<open>delayBetweenTwoCarryPulses\<close> is not
  under src/ and is the parameter \<open>delay\<close>, indexed by the zone. The CPU and the two I/O
  chips are opaque collaborators: \<open>cpuCycle\<close> stands for one cycle of them
  (\<open>++cpu.cycle\<close>, \<open>cpu.executeOneCycle()\<close>, \<open>via1\<close> and \<open>via2\<close> executing or idling) as a
  function on the state of the drive; the serial bus is left out. The elapsed time is
  unsigned and wraps at \<open>2^64\<close>; the comparisons are those of the source, between signed
  64-bit numbers, with \<open>(i64)elapsedTime\<close> negative from \<open>2^63\<close> on. The two additions to
  the deadlines wrap as well (the result of a signed addition beyond \<open>2^63 - 1\<close> is not
  defined by the language; the processors the emulator runs on wrap). The loop may run
  forever, so it is a partial function: \<open>None\<close> is the loop that does not return, or a
  failed assertion in \<open>executeUF4\<close>. The assertion that closes \<open>execute\<close> repeats the
  negated loop condition and cannot fail.
\<close>

partial_function (option) execute_loop ::
  "(nat \<Rightarrow> 64 word) \<Rightarrow> (Drive \<Rightarrow> Drive) \<Rightarrow> Drive \<Rightarrow> Drive option" where
  "execute_loop delay cpuCycle s =
     (if sint (nextClock s) < sint (elapsedTime s) \<or> sint (nextCarry s) < sint (elapsedTime s) then
        (if sint (nextClock s) \<le> sint (nextCarry s) then
           (let s1 = updateByteReady (cpuCycle s)
            in execute_loop delay cpuCycle (s1\<lparr>nextClock := nextClock s1 + 10000\<rparr>))
         else
           (case (if spinning s then executeUF4 s else Some s) of
              None \<Rightarrow> None
            | Some s1 \<Rightarrow>
                execute_loop delay cpuCycle (s1\<lparr>nextCarry := nextCarry s1 + delay (zone s1)\<rparr>)))
      else Some s)"

definition execute ::
  "(nat \<Rightarrow> 64 word) \<Rightarrow> (Drive \<Rightarrow> Drive) \<Rightarrow> 64 word \<Rightarrow> Drive \<Rightarrow> Drive option" where
  "execute delay cpuCycle duration s =
     execute_loop delay cpuCycle (s\<lparr>elapsedTime := elapsedTime s + duration\<rparr>)"


subsection \<open>Sequences of steps\<close>

text \<open>
  What can happen to the byte-ready line between two looks at it: a bit-cell step, the
  recomputation that \<open>execute\<close> does after a CPU cycle, and the CPU or the chip changing
  the lines that the drive reads from \<open>via2\<close>. \<open>runEvents\<close> returns the states after
  each event, \<open>None\<close> if a step fails. \<open>changes b bs\<close> lists the values of \<open>bs\<close> that
  differ from the value before them, \<open>b\<close> being the value before the first.
\<close>

datatype DriveEvent = BitCell | ByteReadyUpdate | ViaLines bool bool u8

fun driveEvent :: "DriveEvent \<Rightarrow> Drive \<Rightarrow> Drive option" where
  "driveEvent BitCell s = executeUF4 s"
| "driveEvent ByteReadyUpdate s = Some (updateByteReady s)"
| "driveEvent (ViaLines ca2 cb2 pa) s = Some (s\<lparr>via2_CA2 := ca2, via2_CB2 := cb2, via2_PA := pa\<rparr>)"

fun runEvents :: "DriveEvent list \<Rightarrow> Drive \<Rightarrow> Drive list option" where
  "runEvents [] s = Some []"
| "runEvents (e # es) s =
     (case driveEvent e s of
        None \<Rightarrow> None
      | Some s' \<Rightarrow> (case runEvents es s' of None \<Rightarrow> None | Some tr \<Rightarrow> Some (s' # tr)))"

fun changes :: "bool \<Rightarrow> bool list \<Rightarrow> bool list" where
  "changes b [] = []"
| "changes b (x # xs) = (if x \<noteq> b then [x] else []) @ changes x xs"

section \<open>T64 archives (class T64File)\<close>

text \<open>An archive is the byte buffer \<open>data\<close> of the file; \<open>size\<close> is its length.\<close>

type_synonym T64File = "u8 list"

text \<open>
  Modelled from the spec: the macros \<open>LO_HI\<close>, \<open>LO_LO_HI_HI\<close>, \<open>LO_BYTE\<close> and \<open>HI_BYTE\<close>
  are not under src/. They build a 16-bit and a 32-bit value from bytes, low byte first,
  and take the low and the high byte of a 16-bit value.
\<close>

definition LO_HI :: "u8 \<Rightarrow> u8 \<Rightarrow> u16" where
  "LO_HI x y = push_bit 8 (ucast y) OR ucast x"

definition LO_LO_HI_HI :: "u8 \<Rightarrow> u8 \<Rightarrow> u8 \<Rightarrow> u8 \<Rightarrow> 32 word" where
  "LO_LO_HI_HI a b c d =
     push_bit 24 (ucast d) OR push_bit 16 (ucast c) OR push_bit 8 (ucast b) OR ucast a"

definition LO_BYTE :: "u16 \<Rightarrow> u8" where
  "LO_BYTE x = ucast (x AND 0xFF)"

definition HI_BYTE :: "u16 \<Rightarrow> u8" where
  "HI_BYTE x = ucast (drop_bit 8 x)"

text \<open>
  The fields that \<open>repair\<close> reads: the number of items in the header (16 bits, which
  \<open>collectionCount\<close> returns as \<open>u64\<close>), and for item \<open>nr\<close> the start and end address in
  memory and the start offset in the container, four bytes (as \<open>readByte\<close> reads them),
  which \<open>repair\<close> stores in the 16-bit variable \<open>startAddrInContainer\<close>.
\<close>

definition collectionCount :: "T64File \<Rightarrow> u16" where
  "collectionCount a = LO_HI (a ! 0x24) (a ! 0x25)"

definition memStart :: "T64File \<Rightarrow> nat \<Rightarrow> u16" where
  "memStart a nr = LO_HI (a ! (0x42 + nr * 0x20)) (a ! (0x43 + nr * 0x20))"

definition memEnd :: "T64File \<Rightarrow> nat \<Rightarrow> u16" where
  "memEnd a nr = LO_HI (a ! (0x44 + nr * 0x20)) (a ! (0x45 + nr * 0x20))"

definition itemOffset :: "T64File \<Rightarrow> nat \<Rightarrow> 32 word" where
  "itemOffset a i =
     LO_LO_HI_HI (a ! (0x48 + i * 0x20)) (a ! (0x49 + i * 0x20))
                 (a ! (0x4A + i * 0x20)) (a ! (0x4B + i * 0x20))"

definition startAddrInContainer :: "T64File \<Rightarrow> nat \<Rightarrow> u16" where
  "startAddrInContainer a i = ucast (itemOffset a i)"

definition directoryItemIsPresent :: "T64File \<Rightarrow> nat \<Rightarrow> bool" where
  "directoryItemIsPresent a item =
     (let first = 0x40 + item * 0x20; last = 0x60 + item * 0x20
      in last < length a \<and> (\<exists>i \<in> set [first..<last]. a ! i \<noteq> 0))"

text \<open>
  What \<open>repair\<close> writes to the log (\<open>trace\<close> and \<open>warn\<close>), and the failure of the model: a
  read or write beyond the buffer, which the source does not check.
\<close>

datatype T64Log =
  ChangingNumberOfItems u16 u16
| CantRepair
| ChangingEndAddress nat u16 u16

datatype T64Error = OutOfBounds

text \<open>
  Step 1 of \<open>repair\<close>: \<open>while (directoryItemIsPresent(noOfItems)) noOfItems++\<close> on the
  16-bit counter. The counter wraps, so the loop need not end.
\<close>

partial_function (option) countItems :: "T64File \<Rightarrow> u16 \<Rightarrow> u16 option" where
  "countItems a noOfItems =
     (if directoryItemIsPresent a (unat noOfItems) then countItems a (noOfItems + 1)
      else Some noOfItems)"

declare countItems.simps [code]

text \<open>
  Steps 2 and 3 of \<open>repair\<close>, the loop over the items from \<open>i\<close> on. The result is what
  \<open>repair\<close> returns, the buffer and the log.
\<close>

function repairItems ::
  "nat \<Rightarrow> nat \<Rightarrow> T64File \<Rightarrow> T64Log list \<Rightarrow> T64Error + (bool \<times> T64File \<times> T64Log list)" where
  "repairItems i noOfItems a lg =
     (if i < noOfItems then
        (if \<not> 0x4B + i * 0x20 < length a then Inl OutOfBounds
         else if unat (startAddrInContainer a i) \<ge> length a
           then Inr (False, a, lg @ [CantRepair])
         else
           (let n = 0x44 + i * 0x20;
                startAddrInMemory = memStart a i;
                endAddrInMemory = memEnd a i
            in if endAddrInMemory = 0xC3C6 then
                 (let fixedEndAddrInMemory =
                        startAddrInMemory +
                        of_nat (length a - unat (startAddrInContainer a i))
                  in repairItems (i + 1) noOfItems
                       (a[n := LO_BYTE fixedEndAddrInMemory,
                          n + 1 := HI_BYTE fixedEndAddrInMemory])
                       (lg @ [ChangingEndAddress i endAddrInMemory fixedEndAddrInMemory]))
               else repairItems (i + 1) noOfItems a lg))
      else Inr (True, a, lg))"
  by pat_completeness auto
termination
  by (relation "measure (\<lambda>(i, noOfItems, a, lg). noOfItems - i)") auto

declare repairItems.simps [simp del]

text \<open>
  \<open>repair\<close>. \<open>None\<close> is the counting loop that does not end.
\<close>

definition repair :: "T64File \<Rightarrow> (T64Error + (bool \<times> T64File \<times> T64Log list)) option" where
  "repair a =
     (if \<not> 0x25 < length a then Some (Inl OutOfBounds)
      else if collectionCount a = 0 then
        (case countItems a 0 of
           None \<Rightarrow> None
         | Some noOfItems \<Rightarrow>
             (let noOfItemsStatedInHeader = collectionCount a
              in if noOfItems \<noteq> noOfItemsStatedInHeader
                 then Some (repairItems 0 (unat noOfItems)
                        (a[0x24 := LO_BYTE noOfItems, 0x25 := HI_BYTE noOfItems])
                        [ChangingNumberOfItems noOfItemsStatedInHeader noOfItems])
                 else Some (repairItems 0 (unat noOfItems) a [])))
      else Some (repairItems 0 (unat (collectionCount a)) a []))"







section \<open>Example states and archives\<close>

text \<open>
  A write-protected disk whose halftracks are filled with the gap byte \<open>0x55\<close>, and the
  halftrack length of 7928 bytes that the examples use as the default.
\<close>

definition gapDisk :: Disk where
  "gapDisk = \<lparr>writeProtected = True, modified = False,
              data = (\<lambda>ht i. 0x55), length_ht = (\<lambda>ht. 63424)\<rparr>"

definition exampleLength :: "nat \<Rightarrow> u16" where
  "exampleLength ht = 63424"

text \<open>
  A drive in read mode whose read shift register holds ten 1-bits, one step before
  phase 2, and the same drive after that step.
\<close>

definition syncLostBefore :: Drive where
  "syncLostBefore = (initialDrive exampleLength)
     \<lparr>via2_CB2 := True, readShiftreg := 0x3FF, counterUF4 := 5\<rparr>"

definition syncLostAfter :: Drive where
  "syncLostAfter = (initialDrive exampleLength)
     \<lparr>via2_CB2 := True, readShiftreg := 0x7FE, counterUF4 := 6, carryCounter := 1,
      byteReady := True, via2_CA1actions := [True]\<rparr>"

text \<open>A drive with the disk half in and one with the disk fully in, one tick before the edge.\<close>

definition halfInserted :: Drive where
  "halfInserted = (initialDrive exampleLength)
     \<lparr>insertionStatus := DISK_PARTIALLY_INSERTED, diskToInsert := Some gapDisk,
      diskChangeCounter := 1\<rparr>"

definition ejecting :: Drive where
  "ejecting = (initialDrive exampleLength)
     \<lparr>insertionStatus := DISK_FULLY_INSERTED, disk := gapDisk, diskChangeCounter := 1\<rparr>"

text \<open>
  Four carry delays (a bit cell every 16, 15, 14 and 13 sixteenths of a CPU cycle) and a
  CPU cycle that starts the motor and switches to the next zone.
\<close>

definition exampleDelay :: "nat \<Rightarrow> 64 word" where
  "exampleDelay z = [10000, 9375, 8750, 8125] ! z"

definition exampleCpuCycle :: "Drive \<Rightarrow> Drive" where
  "exampleCpuCycle t = t\<lparr>spinning := True, zone := (zone t + 1) mod 4\<rparr>"

text \<open>
  Three archives of 192 bytes with an item count of zero and two directory entries. In
  the first, item 0 starts at offset \<open>0xA0\<close>, is loaded to \<open>0x0801\<close> and has the end address
  \<open>0xC3C6\<close>. In the second, item 0 starts at offset \<open>0xFF\<close>, beyond the end of the
  archive, and item 1 has the end address \<open>0xC3C6\<close>. The third is the first with the
  offset \<open>0x000100A0\<close> for item 0, beyond the end of the archive, but with the low 16 bits
  \<open>0x00A0\<close>.
\<close>

definition t64Tail :: "T64File" where
  "t64Tail = (replicate 192 0)
     [0x40 := 0x01, 0x41 := 0x82, 0x42 := 0x01, 0x43 := 0x08, 0x44 := 0xC6, 0x45 := 0xC3,
      0x48 := 0xA0,
      0x60 := 0x01, 0x61 := 0x82, 0x62 := 0x00, 0x63 := 0x10, 0x64 := 0x10, 0x65 := 0x10,
      0x68 := 0xB0]"


definition t64Wide :: "T64File" where
  "t64Wide = t64Tail[0x4A := 0x01]"


section \<open>Properties of the GCR codec\<close>

lemma u8_below_cases:
  assumes "(v::u8) < of_nat n" and "n \<le> 256"
  shows "v \<in> set (map of_nat [0..<n])"
proof -
  have "unat v < n"
    using assms by (simp add: word_less_nat_alt unat_of_nat take_bit_nat_eq_self)
  moreover have "v = of_nat (unat v)" by simp
  ultimately show ?thesis
    by (metis atLeastLessThan_iff image_eqI list.set_map set_upt zero_le)
qed

lemma u8_below_16: "(v::u8) < 16 \<Longrightarrow> v \<in> set (map of_nat [0..<16])"
  using u8_below_cases[of v 16] by simp

lemma u8_below_32: "(v::u8) < 32 \<Longrightarrow> v \<in> set (map of_nat [0..<32])"
  using u8_below_cases[of v 32] by simp

lemma gcr_inverse_all:
  "\<forall>v \<in> set (map of_nat [0..<16]). \<exists>c<32. bin2gcr (v::u8) = Some c \<and> gcr2bin c = Some v"
  by (simp add: upt_rec bin2gcr_def gcr2bin_def gcr_def invgcr_def)

lemma invgcr_invalid_all:
  "\<forall>p \<in> set (map of_nat [0..<32]).
     (p \<notin> set gcr \<longrightarrow> gcr2bin (p::u8) = Some 0xFF) \<and> ((isGcr p = Some False) = (p \<notin> set gcr))"
  by (simp add: upt_rec isGcr_def gcr2bin_def gcr_def invgcr_def)

lemma unused_patterns:
  "{p::u8. p < 32 \<and> p \<notin> set gcr} = set (filter (\<lambda>p. p \<notin> set gcr) (map of_nat [0..<32]))"
proof -
  have "\<forall>p \<in> set (map of_nat [0..<32]). (p::u8) < 32"
    by (simp add: upt_rec)
  then show ?thesis using u8_below_32 by auto
qed

lemma unused_patterns_card: "card {p::u8. p < 32 \<and> p \<notin> set gcr} = 16"
  unfolding unused_patterns by (simp add: upt_rec gcr_def)

text \<open>
  Claim C2. For every 4-bit value \<open>v\<close>, \<open>bin2gcr\<close> returns a 5-bit codeword that
  \<open>gcr2bin\<close> decodes to \<open>v\<close>. For every 5-bit pattern that is not one of the 16
  codewords, \<open>gcr2bin\<close> returns the mark \<open>0xFF\<close>; \<open>isGcr\<close> is false on exactly those
  patterns, and there are 16 of them.
\<close>

theorem gcr_roundtrip:
  "(\<forall>v<16. \<exists>c<32. bin2gcr v = Some c \<and> gcr2bin c = Some v) \<and>
   (\<forall>p<32. p \<notin> set gcr \<longrightarrow> gcr2bin p = Some 0xFF) \<and>
   (\<forall>p<32. (isGcr p = Some False) = (p \<notin> set gcr)) \<and>
   card {p. p < 32 \<and> p \<notin> set gcr} = 16"
  using gcr_inverse_all invgcr_invalid_all u8_below_16 u8_below_32 unused_patterns_card
  by blast

theorem gcr_roundtrip_witness:
  "(5::u8) < 16 \<and> bin2gcr 5 = Some 0x0f \<and> gcr2bin 0x0f = Some 5 \<and>
   (0x1f::u8) < 32 \<and> 0x1f \<notin> set gcr \<and> gcr2bin 0x1f = Some 0xFF \<and> isGcr 0x1f = Some False"
proof -
  have v: "(5::u8) < 16" and p: "(0x1f::u8) < 32" and n: "(0x1f::u8) \<notin> set gcr"
    by (simp_all add: gcr_def)
  have e: "bin2gcr 5 = Some 0x0f"
    by (simp add: bin2gcr_def gcr_def)
  from gcr_roundtrip v have "\<exists>c<32. bin2gcr 5 = Some c \<and> gcr2bin c = Some 5"
    by blast
  with e have "gcr2bin 0x0f = Some 5"
    by simp
  moreover from gcr_roundtrip p n have "gcr2bin 0x1f = Some 0xFF" and "isGcr 0x1f = Some False"
    by blast+
  ultimately show ?thesis
    using v p n e by simp
qed

section \<open>Properties of the disk change procedure\<close>

lemma vsync_idle:
  "diskChangeCounter s - 1 \<noteq> 0 \<Longrightarrow>
   vsyncHandler dflt s = Some (s\<lparr>diskChangeCounter := diskChangeCounter s - 1\<rparr>)"
  by (simp add: vsyncHandler_def Let_def)

lemma unat_pred: "(c :: 64 word) \<noteq> 0 \<Longrightarrow> unat (c - 1) = unat c - 1"
  by (metis One_nat_def Suc_leI unat_1 unat_gt_0 unat_sub word_le_nat_alt)

text \<open>While the counter stays away from zero, ticks only count down.\<close>

lemma ticks_idle:
  "n \<le> unat (diskChangeCounter s - 1) \<Longrightarrow>
   ticks dflt n s = Some (s\<lparr>diskChangeCounter := diskChangeCounter s - of_nat n\<rparr>)"
proof (induction n arbitrary: s)
  case 0
  then show ?case by simp
next
  case (Suc n)
  have ne: "diskChangeCounter s - 1 \<noteq> 0"
    using Suc.prems by auto
  have un: "unat (diskChangeCounter s - 1 - 1) = unat (diskChangeCounter s - 1) - 1"
    by (rule unat_pred[OF ne])
  have "ticks dflt (Suc n) s = ticks dflt n (s\<lparr>diskChangeCounter := diskChangeCounter s - 1\<rparr>)"
    by (simp add: vsync_idle[OF ne])
  also have "\<dots> = Some (s\<lparr>diskChangeCounter := diskChangeCounter s - 1 - of_nat n\<rparr>)"
    using Suc.prems un by (subst Suc.IH) simp_all
  finally show ?case by (simp add: diff_diff_eq)
qed

lemma ticks_add:
  "ticks dflt (m + n) s =
     (case ticks dflt m s of None \<Rightarrow> None | Some s' \<Rightarrow> ticks dflt n s')"
  by (induction m arbitrary: s) (simp_all split: option.splits)

lemma ticks_Suc:
  "ticks dflt (Suc n) s =
     (case vsyncHandler dflt s of None \<Rightarrow> None | Some s' \<Rightarrow> ticks dflt n s')"
  by simp

text \<open>
  The insertion, tick by tick: the first tick after \<open>insertDisk\<close> pushes the disk half in
  and rearms the counter with 17; the ticks 2 to 17 only count down; tick 18 inserts the
  disk fully, copies the staged disk and leaves the counter at zero; from then on the
  counter runs below zero and nothing fires for the next \<open>2^64 - 1\<close> ticks.
\<close>

lemma insert_ticks:
  assumes "insertionStatus s = DISK_FULLY_EJECTED" and "diskToInsert s = None"
  shows "m \<le> 16 \<Longrightarrow> ticks dflt (Suc m) (insertDisk (Some d) s) =
           Some (s\<lparr>diskToInsert := Some d, insertionStatus := DISK_PARTIALLY_INSERTED,
                   diskChangeCounter := 17 - of_nat m\<rparr>)"
    and "m < 2 ^ 64 \<Longrightarrow> ticks dflt (Suc (16 + Suc m)) (insertDisk (Some d) s) =
           Some (s\<lparr>insertionStatus := DISK_FULLY_INSERTED, disk := load (save d) (disk s),
                   diskToInsert := None, diskChangeCounter := - of_nat m\<rparr>)"
proof -
  let ?a = "insertDisk (Some d) s"
  let ?b = "s\<lparr>diskToInsert := Some d, insertionStatus := DISK_PARTIALLY_INSERTED,
               diskChangeCounter := 17\<rparr>"
  let ?c = "s\<lparr>diskToInsert := Some d, insertionStatus := DISK_PARTIALLY_INSERTED,
               diskChangeCounter := 1\<rparr>"
  let ?d = "s\<lparr>insertionStatus := DISK_FULLY_INSERTED, disk := load (save d) (disk s),
               diskToInsert := None, diskChangeCounter := 0\<rparr>"
  have 1: "vsyncHandler dflt ?a = Some ?b"
    using assms by (simp add: insertDisk_def vsyncHandler_def Let_def)
  have 2: "ticks dflt k ?b = Some (?b\<lparr>diskChangeCounter := 17 - of_nat k\<rparr>)" if "k \<le> 16" for k
    using that by (subst ticks_idle) simp_all
  from 2[of 16] have b16: "ticks dflt 16 ?b = Some ?c"
    by simp
  have 3: "vsyncHandler dflt ?c = Some ?d"
    by (simp add: vsyncHandler_def Let_def)
  have 4: "ticks dflt k ?d = Some (?d\<lparr>diskChangeCounter := - of_nat k\<rparr>)" if "k < 2 ^ 64" for k
    using that by (subst ticks_idle) (simp_all add: unsigned_minus_1_eq_mask mask_eq_exp_minus_1)
  show "ticks dflt (Suc m) ?a = Some (s\<lparr>diskToInsert := Some d,
          insertionStatus := DISK_PARTIALLY_INSERTED, diskChangeCounter := 17 - of_nat m\<rparr>)"
    if "m \<le> 16"
    using 2[OF that] by (simp only: ticks_Suc 1 option.case) simp
  show "ticks dflt (Suc (16 + Suc m)) ?a =
           Some (s\<lparr>insertionStatus := DISK_FULLY_INSERTED, disk := load (save d) (disk s),
                   diskToInsert := None, diskChangeCounter := - of_nat m\<rparr>)"
    if "m < 2 ^ 64"
    using 4[OF that] by (simp only: ticks_Suc ticks_add 1 b16 3 option.case) simp
qed

text \<open>
  The ejection, tick by tick: the first tick after \<open>ejectDisk\<close> pulls the disk half out,
  clears it and rearms the counter with 17; tick 18 takes the disk out and rearms the
  counter once more.
\<close>

lemma eject_ticks:
  assumes "insertionStatus s = DISK_FULLY_INSERTED" and "diskToInsert s = None"
  shows "m \<le> 16 \<Longrightarrow> ticks dflt (Suc m) (ejectDisk s) =
           Some (s\<lparr>insertionStatus := DISK_PARTIALLY_EJECTED, disk := clearDisk dflt (disk s),
                   diskChangeCounter := 17 - of_nat m\<rparr>)"
    and "ticks dflt (Suc (16 + Suc 0)) (ejectDisk s) =
           Some (s\<lparr>insertionStatus := DISK_FULLY_EJECTED, disk := clearDisk dflt (disk s),
                   diskChangeCounter := 17\<rparr>)"
proof -
  let ?a = "ejectDisk s"
  let ?b = "s\<lparr>insertionStatus := DISK_PARTIALLY_EJECTED, disk := clearDisk dflt (disk s),
               diskChangeCounter := 17\<rparr>"
  let ?c = "?b\<lparr>diskChangeCounter := 1\<rparr>"
  let ?d = "s\<lparr>insertionStatus := DISK_FULLY_EJECTED, disk := clearDisk dflt (disk s),
               diskChangeCounter := 17\<rparr>"
  have 1: "vsyncHandler dflt ?a = Some ?b"
    using assms by (simp add: ejectDisk_def vsyncHandler_def Let_def)
  have 2: "ticks dflt k ?b = Some (?b\<lparr>diskChangeCounter := 17 - of_nat k\<rparr>)" if "k \<le> 16" for k
    using that by (subst ticks_idle) simp_all
  from 2[of 16] have b16: "ticks dflt 16 ?b = Some ?c"
    by simp
  have 3: "vsyncHandler dflt ?c = Some ?d"
    by (simp add: vsyncHandler_def Let_def)
  show "ticks dflt (Suc m) ?a = Some (s\<lparr>insertionStatus := DISK_PARTIALLY_EJECTED,
          disk := clearDisk dflt (disk s), diskChangeCounter := 17 - of_nat m\<rparr>)"
    if "m \<le> 16"
    using 2[OF that] by (simp only: ticks_Suc 1 option.case) simp
  show "ticks dflt (Suc (16 + Suc 0)) ?a = Some ?d"
    by (simp only: ticks_Suc ticks_add 1 b16 3 option.case ticks.simps)
qed





text \<open>
  The claim as it is written fails in its count of ticks: the final status is not reached
  with tick 3 times 17 or 2 times 17, but with tick 18 in both directions; after 17 ticks
  the disk is half in, or half out.
\<close>

theorem disk_change_early_counterexample:
  "map_option insertionStatus
     (ticks exampleLength 17 (insertDisk (Some gapDisk) (initialDrive exampleLength))) =
     Some DISK_PARTIALLY_INSERTED \<and>
   map_option insertionStatus
     (ticks exampleLength 18 (insertDisk (Some gapDisk) (initialDrive exampleLength))) =
     Some DISK_FULLY_INSERTED \<and>
   map_option insertionStatus
     (ticks exampleLength 17 (ejectDisk ((initialDrive exampleLength)
        \<lparr>insertionStatus := DISK_FULLY_INSERTED, disk := gapDisk\<rparr>))) =
     Some DISK_PARTIALLY_EJECTED \<and>
   map_option insertionStatus
     (ticks exampleLength 18 (ejectDisk ((initialDrive exampleLength)
        \<lparr>insertionStatus := DISK_FULLY_INSERTED, disk := gapDisk\<rparr>))) =
     Some DISK_FULLY_EJECTED \<and>
   (18::nat) < 2 * 17 \<and> (18::nat) < 3 * 17"
proof -
  let ?s = "initialDrive exampleLength"
  let ?t = "?s\<lparr>insertionStatus := DISK_FULLY_INSERTED, disk := gapDisk\<rparr>"
  have hs: "insertionStatus ?s = DISK_FULLY_EJECTED" "diskToInsert ?s = None"
    by (simp_all add: initialDrive_def)
  have ht: "insertionStatus ?t = DISK_FULLY_INSERTED" "diskToInsert ?t = None"
    by (simp_all add: initialDrive_def)
  have n: "(17::nat) = Suc 16" "(18::nat) = Suc (16 + Suc 0)"
    by simp_all
  have "map_option insertionStatus (ticks exampleLength 17 (insertDisk (Some gapDisk) ?s)) =
      Some DISK_PARTIALLY_INSERTED"
    unfolding n by (subst insert_ticks(1)[OF hs]) simp_all
  moreover have
    "map_option insertionStatus (ticks exampleLength 18 (insertDisk (Some gapDisk) ?s)) =
      Some DISK_FULLY_INSERTED"
    unfolding n by (subst insert_ticks(2)[OF hs]) simp_all
  moreover have "map_option insertionStatus (ticks exampleLength 17 (ejectDisk ?t)) =
      Some DISK_PARTIALLY_EJECTED"
    unfolding n by (subst eject_ticks(1)[OF ht]) simp_all
  moreover have "map_option insertionStatus (ticks exampleLength 18 (ejectDisk ?t)) =
      Some DISK_FULLY_EJECTED"
    unfolding n by (subst eject_ticks(2)[OF ht]) simp_all
  ultimately show ?thesis by simp
qed

text \<open>
  Claim C5. While a disk is pending, \<open>insertDisk\<close> changes nothing: the pending disk stays
  the first one and the counter keeps its value, also over any number of further calls.
  \<open>ejectDisk\<close> changes nothing unless the status is \<open>DISK_FULLY_INSERTED\<close> and no disk is
  pending.
\<close>

theorem pending_swap_frame:
  "(diskToInsert s \<noteq> None \<longrightarrow>
      insertDisk other s = s \<and>
      diskToInsert (insertDisk other s) = diskToInsert s \<and>
      diskChangeCounter (insertDisk other s) = diskChangeCounter s \<and>
      fold insertDisk others s = s) \<and>
   (\<not> (insertionStatus s = DISK_FULLY_INSERTED \<and> diskToInsert s = None) \<longrightarrow>
      ejectDisk s = s)"
proof (intro conjI impI)
  assume p: "diskToInsert s \<noteq> None"
  then show i: "insertDisk other s = s" for other
    by (auto simp add: insertDisk_def)
  from i show "diskToInsert (insertDisk other s) = diskToInsert s"
    and "diskChangeCounter (insertDisk other s) = diskChangeCounter s"
    by simp_all
  from i show "fold insertDisk others s = s"
    by (induction others) simp_all
next
  assume "\<not> (insertionStatus s = DISK_FULLY_INSERTED \<and> diskToInsert s = None)"
  then show "ejectDisk s = s"
    by (auto simp add: ejectDisk_def)
qed

theorem pending_swap_frame_witness:
  "diskToInsert (insertDisk (Some gapDisk) (initialDrive exampleLength)) \<noteq> None \<and>
   diskToInsert (insertDisk (Some (clearDisk exampleLength gapDisk))
      (insertDisk (Some gapDisk) (initialDrive exampleLength))) = Some gapDisk \<and>
   diskChangeCounter (insertDisk (Some (clearDisk exampleLength gapDisk))
      (insertDisk (Some gapDisk) (initialDrive exampleLength))) = 1 \<and>
   \<not> (insertionStatus (initialDrive exampleLength) = DISK_FULLY_INSERTED \<and>
      diskToInsert (initialDrive exampleLength) = None) \<and>
   ejectDisk (initialDrive exampleLength) = initialDrive exampleLength"
proof -
  let ?s = "insertDisk (Some gapDisk) (initialDrive exampleLength)"
  have p: "diskToInsert ?s \<noteq> None"
    by (simp add: insertDisk_def initialDrive_def)
  have e: "\<not> (insertionStatus (initialDrive exampleLength) = DISK_FULLY_INSERTED \<and>
      diskToInsert (initialDrive exampleLength) = None)"
    by (simp add: initialDrive_def)
  from pending_swap_frame[of ?s "Some (clearDisk exampleLength gapDisk)" "[]"] p
  have "insertDisk (Some (clearDisk exampleLength gapDisk)) ?s = ?s"
    by blast
  moreover from pending_swap_frame[of "initialDrive exampleLength" None "[]"] e
  have "ejectDisk (initialDrive exampleLength) = initialDrive exampleLength"
    by blast
  ultimately show ?thesis
    using p e by (simp add: insertDisk_def initialDrive_def)
qed

section \<open>Properties of the read/write logic\<close>

text \<open>What each part of a bit-cell step changes.\<close>

lemma writeBit_frame:
  "writeBitToHalftrack d ht pos b = Some d' \<Longrightarrow>
   writeProtected d' = writeProtected d \<and> length_ht d' = length_ht d \<and> modified d' = modified d"
  by (auto simp: writeBitToHalftrack_def writeBitToHalftrack'_def split: if_splits)

lemma rotateDisk_frame:
  "\<exists>pos. rotateDisk s = s\<lparr>offset := pos\<rparr> \<and>
         (isValidHeadPos (disk s) (halftrack s) (offset s) \<longrightarrow>
          isValidHeadPos (disk s) (halftrack s) pos)"
  by (auto simp: rotateDisk_def isValidHeadPos_def)

lemma uf4_incoming_frame:
  assumes "uf4_incoming s = Some s1"
  shows "\<exists>c pos. s1 = s\<lparr>counterUF4 := c, offset := pos\<rparr> \<and>
           (isValidHeadPos (disk s) (halftrack s) (offset s) \<longrightarrow>
            isValidHeadPos (disk s) (halftrack s) pos)"
proof (cases "carryCounter s mod 4 = 0")
  case False
  with assms have "s1 = s\<lparr>counterUF4 := counterUF4 s, offset := offset s\<rparr>"
    by (simp add: uf4_incoming_def)
  then show ?thesis by blast
next
  case True
  obtain t where t: "s1 = rotateDisk t" and
    tt: "t = s\<lparr>counterUF4 := 0\<rparr> \<or> t = s"
    using assms True by (auto simp: uf4_incoming_def split: if_splits option.splits)
  obtain pos where p: "rotateDisk t = t\<lparr>offset := pos\<rparr>"
    and v: "isValidHeadPos (disk t) (halftrack t) (offset t) \<longrightarrow>
            isValidHeadPos (disk t) (halftrack t) pos"
    using rotateDisk_frame[of t] by blast
  from tt show ?thesis
  proof
    assume "t = s\<lparr>counterUF4 := 0\<rparr>"
    with t p v have "s1 = s\<lparr>counterUF4 := 0, offset := pos\<rparr> \<and>
           (isValidHeadPos (disk s) (halftrack s) (offset s) \<longrightarrow>
            isValidHeadPos (disk s) (halftrack s) pos)"
      by simp
    then show ?thesis by blast
  next
    assume "t = s"
    with t p v have "s1 = s\<lparr>counterUF4 := counterUF4 s, offset := pos\<rparr> \<and>
           (isValidHeadPos (disk s) (halftrack s) (offset s) \<longrightarrow>
            isValidHeadPos (disk s) (halftrack s) pos)"
      by simp
    then show ?thesis by blast
  qed
qed

lemma uf4_incoming_total:
  "isValidHeadPos (disk s) (halftrack s) (offset s) \<Longrightarrow> \<exists>s1. uf4_incoming s = Some s1"
  by (simp add: uf4_incoming_def readBitFromHead_def readBitFromHalftrack_def
      readBitFromHalftrack'_def wrap_def isValidHeadPos_def)

lemma uf4_sync_eq:
  "uf4_sync s =
     s\<lparr>sync := (readShiftreg s AND 0x3FF \<noteq> 0x3FF \<or> writeMode s),
       byteReadyCounter := (if readShiftreg s AND 0x3FF \<noteq> 0x3FF \<or> writeMode s
                            then byteReadyCounter s else 0)\<rparr>"
  by (simp add: uf4_sync_def Let_def)

lemma updateByteReady_eq:
  "\<exists>b. updateByteReady s =
     s\<lparr>byteReady := b,
       via2_CA1actions := via2_CA1actions s @ (if b \<noteq> byteReady s then [b] else [])\<rparr>"
proof -
  define nb where
    "nb = (\<not> (via2_CA2 s \<and> \<not> counterUF4 s AND 0x02 \<noteq> 0 \<and> byteReadyCounter s = 7))"
  have u: "updateByteReady s =
     (if byteReady s \<noteq> nb
      then s\<lparr>byteReady := nb, via2_CA1actions := via2_CA1actions s @ [nb]\<rparr> else s)"
  proof -
    have "updateByteReady s =
       (if byteReady s \<noteq> nb then CA1action nb (s\<lparr>byteReady := nb\<rparr>) else s)"
      by (simp only: updateByteReady_def Let_def nb_def)
    then show ?thesis by (simp add: CA1action_def)
  qed
  show ?thesis
  proof (cases "byteReady s \<noteq> nb")
    case True
    with u have "updateByteReady s = s\<lparr>byteReady := nb,
       via2_CA1actions := via2_CA1actions s @ (if nb \<noteq> byteReady s then [nb] else [])\<rparr>"
      by auto
    then show ?thesis by blast
  next
    case False
    then have e: "nb = byteReady s" by simp
    from u e have "updateByteReady s = s\<lparr>byteReady := byteReady s,
        via2_CA1actions := via2_CA1actions s @
          (if byteReady s \<noteq> byteReady s then [byteReady s] else [])\<rparr>"
      by simp
    then show ?thesis by (rule exI)
  qed
qed

lemma raiseByteReady_eq:
  "raiseByteReady s =
     s\<lparr>byteReady := True,
       via2_CA1actions := via2_CA1actions s @ (if True \<noteq> byteReady s then [True] else [])\<rparr>"
  by (simp add: raiseByteReady_def CA1action_def)

lemma uf4_phase2_frame:
  assumes "uf4_phase2 s = Some s'"
  shows "\<exists>d w. s' = s\<lparr>byteReady := True,
                 via2_CA1actions := via2_CA1actions s @ (if True \<noteq> byteReady s then [True] else []),
                 byteReadyCounter :=
                   (if sync s then of_nat ((unat (byteReadyCounter s) + 1) mod 8) else 0),
                 disk := d, writeShiftreg := w,
                 readShiftreg := push_bit 1 (readShiftreg s) OR
                                   (if counterUF4 s AND 0x0C = 0 then 1 else 0)\<rparr> \<and>
               writeProtected d = writeProtected (disk s) \<and> length_ht d = length_ht (disk s)"
proof -
  define s2 where "s2 = (raiseByteReady s)\<lparr>byteReadyCounter :=
      (if sync (raiseByteReady s)
       then of_nat ((unat (byteReadyCounter (raiseByteReady s)) + 1) mod 8) else 0)\<rparr>"
  have s2: "s2 = s\<lparr>byteReady := True,
                 via2_CA1actions := via2_CA1actions s @ (if True \<noteq> byteReady s then [True] else []),
                 byteReadyCounter :=
                   (if sync s then of_nat ((unat (byteReadyCounter s) + 1) mod 8) else 0)\<rparr>"
    by (simp add: s2_def raiseByteReady_eq)
  define w where "w = (if writeMode s2 \<and> \<not> getLightBarrier s2
               then (case writeBitToHead (writeShiftreg s2 AND 0x80 \<noteq> 0) s2 of
                       None \<Rightarrow> None
                     | Some s3 \<Rightarrow> Some (s3\<lparr>disk := setModified True (disk s3)\<rparr>))
               else Some s2)"
  have p2: "uf4_phase2 s = (case w of None \<Rightarrow> None | Some s4 \<Rightarrow>
      (let s5 = s4\<lparr>writeShiftreg := push_bit 1 (writeShiftreg s4)\<rparr>;
           s6 = s5\<lparr>readShiftreg := push_bit 1 (readShiftreg s5)\<rparr>
       in Some (s6\<lparr>readShiftreg := readShiftreg s6 OR
                       (if counterUF4 s6 AND 0x0C = 0 then 1 else 0)\<rparr>)))"
    by (simp only: uf4_phase2_def Let_def w_def s2_def)
  with assms obtain s4 where s4: "w = Some s4"
    and s': "s' = s4\<lparr>writeShiftreg := push_bit 1 (writeShiftreg s4),
                 readShiftreg := push_bit 1 (readShiftreg s4) OR
                                   (if counterUF4 s4 AND 0x0C = 0 then 1 else 0)\<rparr>"
    by (auto simp add: Let_def split: option.splits)
  have "\<exists>d. s4 = s2\<lparr>disk := d\<rparr> \<and> writeProtected d = writeProtected (disk s2) \<and>
             length_ht d = length_ht (disk s2)"
  proof (cases "writeMode s2 \<and> \<not> getLightBarrier s2")
    case False
    with s4 have "s4 = s2" by (auto simp add: w_def)
    then have "s4 = s2\<lparr>disk := disk s2\<rparr>" by simp
    then show ?thesis by blast
  next
    case True
    with s4 obtain d where d: "writeBitToHalftrack (disk s2) (halftrack s2) (offset s2)
          (writeShiftreg s2 AND 0x80 \<noteq> 0) = Some d"
      and e: "s4 = s2\<lparr>disk := setModified True d\<rparr>"
      by (auto simp add: w_def writeBitToHead_def split: option.splits)
    from writeBit_frame[OF d] e show ?thesis
      by (auto simp add: setModified_def)
  qed
  then obtain d where "s4 = s2\<lparr>disk := d\<rparr>" and "writeProtected d = writeProtected (disk s2)"
    and "length_ht d = length_ht (disk s2)"
    by blast
  with s' s2 have "s' = s\<lparr>byteReady := True,
                 via2_CA1actions := via2_CA1actions s @ (if True \<noteq> byteReady s then [True] else []),
                 byteReadyCounter :=
                   (if sync s then of_nat ((unat (byteReadyCounter s) + 1) mod 8) else 0),
                 disk := d, writeShiftreg := push_bit 1 (writeShiftreg s),
                 readShiftreg := push_bit 1 (readShiftreg s) OR
                                   (if counterUF4 s AND 0x0C = 0 then 1 else 0)\<rparr> \<and>
               writeProtected d = writeProtected (disk s) \<and> length_ht d = length_ht (disk s)"
    by simp
  then show ?thesis by blast
qed

lemma uf4_phase2_total:
  "isValidHeadPos (disk s) (halftrack s) (offset s) \<Longrightarrow> \<exists>s'. uf4_phase2 s = Some s'"
  by (simp add: uf4_phase2_def Let_def raiseByteReady_eq writeBitToHead_def
      writeBitToHalftrack_def writeBitToHalftrack'_def wrap_def isValidHeadPos_def)

lemma uf4_phase3_eq: "\<exists>w. uf4_phase3 s = s\<lparr>writeShiftreg := w\<rparr>"
proof (cases "byteReadyCounter s = 7")
  case True
  then have "uf4_phase3 s = s\<lparr>writeShiftreg := via2_PA s\<rparr>" by (simp add: uf4_phase3_def)
  then show ?thesis by blast
next
  case False
  then have "uf4_phase3 s = s\<lparr>writeShiftreg := writeShiftreg s\<rparr>" by (simp add: uf4_phase3_def)
  then show ?thesis by blast
qed

text \<open>The three ways a bit-cell step ends, by the phase.\<close>

lemma executeUF4_cases:
  assumes "executeUF4 s = Some s'"
  obtains s1 where
    "uf4_incoming (s\<lparr>counterUF4 := counterUF4 s + 1, carryCounter := carryCounter s + 1\<rparr>) = Some s1"
    and "(counterUF4 s1 AND 0x03 \<noteq> 0x02 \<and> counterUF4 s1 AND 0x03 \<noteq> 0x03 \<and>
          s' = updateByteReady (uf4_sync s1)) \<or>
         (counterUF4 s1 AND 0x03 = 0x02 \<and> uf4_phase2 (uf4_sync s1) = Some s') \<or>
         (counterUF4 s1 AND 0x03 = 0x03 \<and> s' = uf4_phase3 (uf4_sync s1))"
proof -
  obtain s1 where 1:
    "uf4_incoming (s\<lparr>counterUF4 := counterUF4 s + 1, carryCounter := carryCounter s + 1\<rparr>) = Some s1"
    using assms by (auto simp add: executeUF4_def split: option.splits)
  have c: "counterUF4 (uf4_sync s1) = counterUF4 s1"
    by (simp add: uf4_sync_eq)
  have m: "(x::64 word) AND 3 \<noteq> 0 \<Longrightarrow> x AND 3 \<noteq> 1 \<Longrightarrow> x AND 3 \<noteq> 2 \<Longrightarrow> x AND 3 = 3" for x
  proof -
    assume a: "x AND 3 \<noteq> 0" "x AND 3 \<noteq> 1" "x AND 3 \<noteq> 2"
    define n where "n = unat (x AND 3)"
    have "x AND 3 \<le> 3" by (rule word_and_le1)
    then have "n \<le> 3" by (simp add: word_le_nat_alt n_def)
    then have "n = 0 \<or> n = 1 \<or> n = 2 \<or> n = 3"
      by arith
    moreover have "x AND 3 = of_nat n" by (simp add: n_def)
    ultimately show ?thesis using a by auto
  qed
  from assms 1 c have
    "(counterUF4 s1 AND 0x03 \<noteq> 0x02 \<and> counterUF4 s1 AND 0x03 \<noteq> 0x03 \<and>
          s' = updateByteReady (uf4_sync s1)) \<or>
         (counterUF4 s1 AND 0x03 = 0x02 \<and> uf4_phase2 (uf4_sync s1) = Some s') \<or>
         (counterUF4 s1 AND 0x03 = 0x03 \<and> s' = uf4_phase3 (uf4_sync s1))"
    using m[of "counterUF4 s1"]
    by (auto simp add: executeUF4_def Let_def split: if_splits)
  with 1 show ?thesis by (rule that)
qed

text \<open>
  The effect of a bit-cell step that returns: the fields it may change, and how the
  SYNC signal, the byte ready counter, the byte ready line with its notifications and
  the read shift register come out, by the phase.
\<close>

lemma executeUF4_effect:
  assumes "executeUF4 s = Some s'"
  shows "\<exists>c pos b d w r n.
     s' = s\<lparr>counterUF4 := c, carryCounter := carryCounter s + 1, offset := pos,
            sync := (readShiftreg s AND 0x3FF \<noteq> 0x3FF \<or> writeMode s),
            byteReadyCounter := n, byteReady := b,
            via2_CA1actions := via2_CA1actions s @ (if b \<noteq> byteReady s then [b] else []),
            disk := d, writeShiftreg := w, readShiftreg := r\<rparr> \<and>
     writeProtected d = writeProtected (disk s) \<and> length_ht d = length_ht (disk s) \<and>
     (isValidHeadPos (disk s) (halftrack s) (offset s) \<longrightarrow>
        isValidHeadPos (disk s) (halftrack s) pos) \<and>
     (c AND 0x03 = 0x02 \<longrightarrow>
        b \<and>
        n = (if readShiftreg s AND 0x3FF \<noteq> 0x3FF \<or> writeMode s
             then of_nat ((unat (byteReadyCounter s) + 1) mod 8) else 0) \<and>
        r = push_bit 1 (readShiftreg s) OR (if c AND 0x0C = 0 then 1 else 0)) \<and>
     (c AND 0x03 \<noteq> 0x02 \<longrightarrow>
        n = (if readShiftreg s AND 0x3FF \<noteq> 0x3FF \<or> writeMode s
             then byteReadyCounter s else 0) \<and>
        r = readShiftreg s \<and> d = disk s)"
proof -
  define SY where "SY = (readShiftreg s AND 0x3FF \<noteq> 0x3FF \<or> writeMode s)"
  let ?s0 = "s\<lparr>counterUF4 := counterUF4 s + 1, carryCounter := carryCounter s + 1\<rparr>"
  from assms obtain s1 where inc: "uf4_incoming ?s0 = Some s1"
    and ph: "(counterUF4 s1 AND 0x03 \<noteq> 0x02 \<and> counterUF4 s1 AND 0x03 \<noteq> 0x03 \<and>
          s' = updateByteReady (uf4_sync s1)) \<or>
         (counterUF4 s1 AND 0x03 = 0x02 \<and> uf4_phase2 (uf4_sync s1) = Some s') \<or>
         (counterUF4 s1 AND 0x03 = 0x03 \<and> s' = uf4_phase3 (uf4_sync s1))"
    by (rule executeUF4_cases)
  from uf4_incoming_frame[OF inc] obtain c pos where
    s1': "s1 = ?s0\<lparr>counterUF4 := c, offset := pos\<rparr>"
    and v': "isValidHeadPos (disk ?s0) (halftrack ?s0) (offset ?s0) \<longrightarrow>
             isValidHeadPos (disk ?s0) (halftrack ?s0) pos"
    by blast
  from s1' have
    s1: "s1 = s\<lparr>counterUF4 := c, carryCounter := carryCounter s + 1, offset := pos\<rparr>"
    by simp
  from v' have v: "isValidHeadPos (disk s) (halftrack s) (offset s) \<longrightarrow>
            isValidHeadPos (disk s) (halftrack s) pos"
    by simp
  define s2 where "s2 = uf4_sync s1"
  have s2: "s2 = s\<lparr>counterUF4 := c, carryCounter := carryCounter s + 1, offset := pos,
       sync := SY, byteReadyCounter := (if SY then byteReadyCounter s else 0)\<rparr>"
    by (simp add: s2_def uf4_sync_eq s1 SY_def writeMode_def readMode_def)
  have c1: "counterUF4 s1 = c" by (simp add: s1)
  from ph c1 consider
      (upd) "c AND 0x03 \<noteq> 0x02" "s' = updateByteReady s2"
    | (ph2) "c AND 0x03 = 0x02" "uf4_phase2 s2 = Some s'"
    | (ph3) "c AND 0x03 \<noteq> 0x02" "s' = uf4_phase3 s2"
    by (auto simp add: s2_def)
  then have "\<exists>b d w r n.
     s' = s\<lparr>counterUF4 := c, carryCounter := carryCounter s + 1, offset := pos,
            sync := SY, byteReadyCounter := n, byteReady := b,
            via2_CA1actions := via2_CA1actions s @ (if b \<noteq> byteReady s then [b] else []),
            disk := d, writeShiftreg := w, readShiftreg := r\<rparr> \<and>
     writeProtected d = writeProtected (disk s) \<and> length_ht d = length_ht (disk s) \<and>
     (c AND 0x03 = 0x02 \<longrightarrow>
        b \<and> n = (if SY then of_nat ((unat (byteReadyCounter s) + 1) mod 8) else 0) \<and>
        r = push_bit 1 (readShiftreg s) OR (if c AND 0x0C = 0 then 1 else 0)) \<and>
     (c AND 0x03 \<noteq> 0x02 \<longrightarrow>
        n = (if SY then byteReadyCounter s else 0) \<and> r = readShiftreg s \<and> d = disk s)"
  proof cases
    case upd
    from updateByteReady_eq[of s2] obtain b where
      "updateByteReady s2 = s2\<lparr>byteReady := b,
         via2_CA1actions := via2_CA1actions s2 @ (if b \<noteq> byteReady s2 then [b] else [])\<rparr>"
      by blast
    with upd s2 have "s' = s\<lparr>counterUF4 := c, carryCounter := carryCounter s + 1, offset := pos,
            sync := SY, byteReadyCounter := (if SY then byteReadyCounter s else 0), byteReady := b,
            via2_CA1actions := via2_CA1actions s @ (if b \<noteq> byteReady s then [b] else []),
            disk := disk s, writeShiftreg := writeShiftreg s, readShiftreg := readShiftreg s\<rparr>"
      by simp
    with upd(1) show ?thesis by blast
  next
    case ph2
    from uf4_phase2_frame[OF ph2(2)] obtain d w where
      e: "s' = s2\<lparr>byteReady := True,
                 via2_CA1actions := via2_CA1actions s2 @ (if True \<noteq> byteReady s2 then [True] else []),
                 byteReadyCounter :=
                   (if sync s2 then of_nat ((unat (byteReadyCounter s2) + 1) mod 8) else 0),
                 disk := d, writeShiftreg := w,
                 readShiftreg := push_bit 1 (readShiftreg s2) OR
                                   (if counterUF4 s2 AND 0x0C = 0 then 1 else 0)\<rparr>"
      and d: "writeProtected d = writeProtected (disk s2)" "length_ht d = length_ht (disk s2)"
      by blast
    from e s2 have "s' = s\<lparr>counterUF4 := c, carryCounter := carryCounter s + 1, offset := pos,
            sync := SY,
            byteReadyCounter := (if SY then of_nat ((unat (byteReadyCounter s) + 1) mod 8) else 0),
            byteReady := True,
            via2_CA1actions := via2_CA1actions s @ (if True \<noteq> byteReady s then [True] else []),
            disk := d, writeShiftreg := w,
            readShiftreg := push_bit 1 (readShiftreg s) OR (if c AND 0x0C = 0 then 1 else 0)\<rparr>"
      by simp
    moreover from d s2 have "writeProtected d = writeProtected (disk s)"
      "length_ht d = length_ht (disk s)" by simp_all
    ultimately show ?thesis using ph2(1) by blast
  next
    case ph3
    from uf4_phase3_eq[of s2] obtain w where "uf4_phase3 s2 = s2\<lparr>writeShiftreg := w\<rparr>"
      by blast
    with ph3 s2 have "s' = s\<lparr>counterUF4 := c, carryCounter := carryCounter s + 1, offset := pos,
            sync := SY, byteReadyCounter := (if SY then byteReadyCounter s else 0),
            byteReady := byteReady s,
            via2_CA1actions := via2_CA1actions s @
               (if byteReady s \<noteq> byteReady s then [byteReady s] else []),
            disk := disk s, writeShiftreg := w, readShiftreg := readShiftreg s\<rparr>"
      by simp
    with ph3(1) show ?thesis by blast
  qed
  with v show ?thesis unfolding SY_def by blast
qed

lemma executeUF4_total:
  assumes "isValidHeadPos (disk s) (halftrack s) (offset s)"
  shows "\<exists>s'. executeUF4 s = Some s'"
proof -
  let ?s0 = "s\<lparr>counterUF4 := counterUF4 s + 1, carryCounter := carryCounter s + 1\<rparr>"
  from assms have "isValidHeadPos (disk ?s0) (halftrack ?s0) (offset ?s0)" by simp
  from uf4_incoming_total[OF this] obtain s1 where inc: "uf4_incoming ?s0 = Some s1"
    by blast
  from uf4_incoming_frame[OF inc] assms
  have "isValidHeadPos (disk s1) (halftrack s1) (offset s1)" by auto
  then have "isValidHeadPos (disk (uf4_sync s1)) (halftrack (uf4_sync s1)) (offset (uf4_sync s1))"
    by (simp add: uf4_sync_eq)
  from uf4_phase2_total[OF this] obtain s' where "uf4_phase2 (uf4_sync s1) = Some s'"
    by blast
  with inc show ?thesis
    by (simp add: executeUF4_def Let_def)
qed

lemma driveEvent_notifies:
  assumes "driveEvent e s = Some s'"
  shows "via2_CA1actions s' = via2_CA1actions s @ changes (byteReady s) [byteReady s']"
proof (cases e)
  case BitCell
  with assms have "executeUF4 s = Some s'" by simp
  from executeUF4_effect[OF this] show ?thesis by auto
next
  case ByteReadyUpdate
  with assms have "s' = updateByteReady s" by simp
  with updateByteReady_eq[of s] show ?thesis by auto
next
  case (ViaLines ca2 cb2 pa)
  with assms show ?thesis by auto
qed

lemma runEvents_notifies:
  "runEvents es s = Some tr \<Longrightarrow>
   via2_CA1actions (last (s # tr)) = via2_CA1actions s @ changes (byteReady s) (map byteReady tr)"
proof (induction es arbitrary: s tr)
  case Nil
  then show ?case by simp
next
  case (Cons e es)
  from Cons.prems obtain s' tr' where e: "driveEvent e s = Some s'"
    and r: "runEvents es s' = Some tr'" and tr: "tr = s' # tr'"
    by (auto split: option.splits)
  have "via2_CA1actions (last (s # tr)) = via2_CA1actions (last (s' # tr'))"
    by (simp add: tr)
  also have "\<dots> = via2_CA1actions s' @ changes (byteReady s') (map byteReady tr')"
    by (rule Cons.IH[OF r])
  also have "\<dots> = via2_CA1actions s @ changes (byteReady s) (map byteReady tr)"
    by (simp add: driveEvent_notifies[OF e] tr)
  finally show ?case .
qed

text \<open>
  Claim C3. \<open>updateByteReady\<close> and \<open>raiseByteReady\<close> call \<open>CA1action\<close> once, with the new
  value, when they change the byte-ready value, and not at all when they leave it as it
  was; \<open>raiseByteReady\<close> sets it to true. Over any sequence of bit-cell steps,
  recomputations and changes of the chip's lines, the calls that are added are exactly the
  changed values of byte-ready, in their order.
\<close>

theorem byte_ready_notified_once:
  "(\<exists>b. updateByteReady s =
          s\<lparr>byteReady := b,
            via2_CA1actions := via2_CA1actions s @ changes (byteReady s) [b]\<rparr>) \<and>
   raiseByteReady s =
     s\<lparr>byteReady := True,
       via2_CA1actions := via2_CA1actions s @ changes (byteReady s) [True]\<rparr> \<and>
   (runEvents es s = Some tr \<longrightarrow>
      via2_CA1actions (last (s # tr)) =
        via2_CA1actions s @ changes (byteReady s) (map byteReady tr))"
  using updateByteReady_eq[of s] raiseByteReady_eq[of s] runEvents_notifies[of es s tr]
  by simp


lemma events_example:
  "map_option (map byteReady)
     (runEvents [ByteReadyUpdate, ByteReadyUpdate, ViaLines True True 0, ByteReadyUpdate,
                 BitCell, BitCell]
        ((initialDrive exampleLength)\<lparr>byteReadyCounter := 7\<rparr>)) =
   Some [True, True, True, False, False, True]"
  by code_simp

theorem byte_ready_notified_once_witness:
  "\<exists>tr. runEvents [ByteReadyUpdate, ByteReadyUpdate, ViaLines True True 0, ByteReadyUpdate,
                     BitCell, BitCell]
           ((initialDrive exampleLength)\<lparr>byteReadyCounter := 7\<rparr>) = Some tr \<and>
        map byteReady tr = [True, True, True, False, False, True] \<and>
        via2_CA1actions (last tr) = [True, False, True]"
proof -
  let ?s = "(initialDrive exampleLength)\<lparr>byteReadyCounter := 7\<rparr>"
  let ?es = "[ByteReadyUpdate, ByteReadyUpdate, ViaLines True True 0,
              ByteReadyUpdate, BitCell, BitCell]"
  from events_example[unfolded map_option_eq_Some]
  obtain tr where r: "runEvents ?es ?s = Some tr"
    and b: "map byteReady tr = [True, True, True, False, False, True]"
  proof (elim exE conjE)
    fix z
    assume "runEvents ?es ?s = Some z" "map byteReady z = [True, True, True, False, False, True]"
    then show thesis by (rule that)
  qed
  have i: "via2_CA1actions ?s = []" "byteReady ?s = False"
    by (simp_all add: initialDrive_def)
  from b have l: "last (?s # tr) = last tr"
    by (cases tr) simp_all
  have "via2_CA1actions (last (?s # tr)) =
          via2_CA1actions ?s @ changes (byteReady ?s) (map byteReady tr)"
    by (rule byte_ready_notified_once[of ?s ?es tr, THEN conjunct2, THEN conjunct2, THEN mp,
          OF r])
  then have c: "via2_CA1actions (last tr) = [True, False, True]"
    by (simp only: l i b changes.simps append.simps if_True if_False simp_thms)
  have "runEvents ?es ?s = Some tr \<and>
        map byteReady tr = [True, True, True, False, False, True] \<and>
        via2_CA1actions (last tr) = [True, False, True]"
    by (intro conjI) (rule r, rule b, rule c)
  then show ?thesis
    by (rule exI[of _ tr])
qed

text \<open>
  Claim C8, as the code has it. After a bit-cell step the SYNC flag is the signal computed
  from the read shift register and the mode as they were when the step began; on every
  step but a phase-2 step the register is still that value afterwards. Whenever SYNC is
  false after the step the byte ready counter is 0; with SYNC true a phase-2 step advances
  the counter by one modulo 8 and every other step leaves it. A step from a valid head
  position returns.
\<close>

theorem sync_signal_and_counter:
  "(executeUF4 s = Some s' \<longrightarrow>
      sync s' = (readShiftreg s AND 0x3FF \<noteq> 0x3FF \<or> writeMode s) \<and>
      writeMode s' = writeMode s \<and>
      (counterUF4 s' AND 0x03 \<noteq> 0x02 \<longrightarrow> readShiftreg s' = readShiftreg s) \<and>
      (\<not> sync s' \<longrightarrow> byteReadyCounter s' = 0) \<and>
      (sync s' \<and> counterUF4 s' AND 0x03 = 0x02 \<longrightarrow>
         unat (byteReadyCounter s') = (unat (byteReadyCounter s) + 1) mod 8) \<and>
      (sync s' \<and> counterUF4 s' AND 0x03 \<noteq> 0x02 \<longrightarrow>
         byteReadyCounter s' = byteReadyCounter s)) \<and>
   (isValidHeadPos (disk s) (halftrack s) (offset s) \<longrightarrow> executeUF4 s \<noteq> None)"
proof (intro conjI impI)
  assume "isValidHeadPos (disk s) (halftrack s) (offset s)"
  from executeUF4_total[OF this] show "executeUF4 s \<noteq> None" by auto
next
  have m: "unat (of_nat (k mod 8) :: u8) = k mod 8" for k :: nat
    by (simp add: unat_of_nat take_bit_nat_eq_self)
  assume "executeUF4 s = Some s'"
  from executeUF4_effect[OF this] obtain c pos b d w r n where
    e: "s' = s\<lparr>counterUF4 := c, carryCounter := carryCounter s + 1, offset := pos,
            sync := (readShiftreg s AND 0x3FF \<noteq> 0x3FF \<or> writeMode s),
            byteReadyCounter := n, byteReady := b,
            via2_CA1actions := via2_CA1actions s @ (if b \<noteq> byteReady s then [b] else []),
            disk := d, writeShiftreg := w, readShiftreg := r\<rparr>"
    and p2: "c AND 0x03 = 0x02 \<longrightarrow>
        n = (if readShiftreg s AND 0x3FF \<noteq> 0x3FF \<or> writeMode s
             then of_nat ((unat (byteReadyCounter s) + 1) mod 8) else 0)"
    and np2: "c AND 0x03 \<noteq> 0x02 \<longrightarrow>
        n = (if readShiftreg s AND 0x3FF \<noteq> 0x3FF \<or> writeMode s
             then byteReadyCounter s else 0) \<and> r = readShiftreg s"
    by blast
  from e have f: "sync s' = (readShiftreg s AND 0x3FF \<noteq> 0x3FF \<or> writeMode s)"
    "counterUF4 s' = c" "byteReadyCounter s' = n" "readShiftreg s' = r"
    "via2_CB2 s' = via2_CB2 s"
    by simp_all
  show "sync s' = (readShiftreg s AND 0x3FF \<noteq> 0x3FF \<or> writeMode s)"
    by (rule f(1))
  show "writeMode s' = writeMode s"
    using f(5) by (simp add: writeMode_def readMode_def)
  show "readShiftreg s' = readShiftreg s" if "counterUF4 s' AND 0x03 \<noteq> 0x02"
    using that f np2 by simp
  show "byteReadyCounter s' = 0" if "\<not> sync s'"
    using that f p2 np2 by (cases "c AND 0x03 = 0x02") simp_all
  show "unat (byteReadyCounter s') = (unat (byteReadyCounter s) + 1) mod 8"
    if "sync s' \<and> counterUF4 s' AND 0x03 = 0x02"
    using that f p2 m[of "unat (byteReadyCounter s) + 1"] by simp
  show "byteReadyCounter s' = byteReadyCounter s"
    if "sync s' \<and> counterUF4 s' AND 0x03 \<noteq> 0x02"
    using that f np2 by simp
qed

lemma syncLost_step: "executeUF4 syncLostBefore = Some syncLostAfter"
  by (simp add: syncLostBefore_def syncLostAfter_def initialDrive_def executeUF4_def
      uf4_incoming_def uf4_sync_def uf4_phase2_def raiseByteReady_def CA1action_def
      writeMode_def readMode_def Let_def)

theorem sync_signal_and_counter_witness:
  "executeUF4 syncLostBefore = Some syncLostAfter \<and>
   sync syncLostAfter = (readShiftreg syncLostBefore AND 0x3FF \<noteq> 0x3FF \<or>
                         writeMode syncLostBefore) \<and>
   \<not> sync syncLostAfter \<and> byteReadyCounter syncLostAfter = 0 \<and>
   isValidHeadPos (disk syncLostBefore) (halftrack syncLostBefore) (offset syncLostBefore) \<and>
   executeUF4 syncLostBefore \<noteq> None"
proof -
  have v: "isValidHeadPos (disk syncLostBefore) (halftrack syncLostBefore) (offset syncLostBefore)"
    by (simp add: syncLostBefore_def initialDrive_def isValidHeadPos_def lengthOfHalftrack_def
        clearDisk_def exampleLength_def)
  have n: "\<not> sync syncLostAfter"
    by (simp add: syncLostAfter_def initialDrive_def)
  from sync_signal_and_counter[of syncLostBefore syncLostAfter] syncLost_step v n
  show ?thesis by blast
qed

text \<open>
  The claim as it is written fails on a phase-2 step: the read shift register is shifted
  after the SYNC signal was computed. Here the register held ten 1-bits, SYNC is false,
  and the register after the step ends in a 0-bit.
\<close>

theorem sync_after_step_counterexample:
  "executeUF4 syncLostBefore = Some syncLostAfter \<and>
   sync syncLostAfter = False \<and>
   (readShiftreg syncLostAfter AND 0x3FF \<noteq> 0x3FF \<or> writeMode syncLostAfter) = True"
  using syncLost_step by (simp add: syncLostAfter_def initialDrive_def)

lemma vsyncHandler_writeProtected:
  assumes "vsyncHandler dflt s = Some v"
  shows "(diskChangeCounter s - 1 \<noteq> 0 \<or> insertionStatus s = DISK_PARTIALLY_EJECTED \<or>
          insertionStatus s = DISK_FULLY_EJECTED \<longrightarrow>
            writeProtected (disk v) = writeProtected (disk s))"
    and "(diskChangeCounter s - 1 = 0 \<and> insertionStatus s = DISK_FULLY_INSERTED \<longrightarrow>
            writeProtected (disk v) = False)"
    and "(diskChangeCounter s - 1 = 0 \<and> insertionStatus s = DISK_PARTIALLY_INSERTED \<longrightarrow>
            (\<exists>p. diskToInsert s = Some p \<and> writeProtected (disk v) = writeProtected p))"
  using assms
  by (auto simp add: vsyncHandler_def Let_def clearDisk_def load_def save_def
      split: if_splits InsertionStatus.splits option.splits)

text \<open>
  Claim C7, as the code has it. A bit-cell step, a head step, \<open>insertDisk\<close> and
  \<open>ejectDisk\<close> leave the write protection mark of the drive's disk as it was, and so does
  every tick of \<open>vsyncHandler\<close> except two edges: when the disk is pulled half out,
  \<open>clearDisk\<close> removes the mark, and when the pending disk is fully inserted, the drive's
  disk takes the mark of the pending disk. The host-level setters set and toggle it.
\<close>

theorem write_protection_frame:
  "(executeUF4 s = Some a \<longrightarrow> writeProtected (disk a) = writeProtected (disk s)) \<and>
   (moveHeadUp scale s = Some b \<longrightarrow> writeProtected (disk b) = writeProtected (disk s)) \<and>
   (moveHeadDown scale s = Some c \<longrightarrow> writeProtected (disk c) = writeProtected (disk s)) \<and>
   writeProtected (disk (insertDisk other s)) = writeProtected (disk s) \<and>
   writeProtected (disk (ejectDisk s)) = writeProtected (disk s) \<and>
   (vsyncHandler dflt s = Some v \<longrightarrow>
      (diskChangeCounter s - 1 \<noteq> 0 \<or> insertionStatus s = DISK_PARTIALLY_EJECTED \<or>
       insertionStatus s = DISK_FULLY_EJECTED \<longrightarrow>
         writeProtected (disk v) = writeProtected (disk s)) \<and>
      (diskChangeCounter s - 1 = 0 \<and> insertionStatus s = DISK_FULLY_INSERTED \<longrightarrow>
         writeProtected (disk v) = False) \<and>
      (diskChangeCounter s - 1 = 0 \<and> insertionStatus s = DISK_PARTIALLY_INSERTED \<longrightarrow>
         (\<exists>p. diskToInsert s = Some p \<and> writeProtected (disk v) = writeProtected p))) \<and>
   writeProtected (setWriteProtection w d) = w \<and>
   writeProtected (toggleWriteProtection d) = (\<not> writeProtected d)"
proof (intro conjI impI)
  assume "executeUF4 s = Some a"
  from executeUF4_effect[OF this] show "writeProtected (disk a) = writeProtected (disk s)"
    by auto
next
  assume "moveHeadUp scale s = Some b"
  then show "writeProtected (disk b) = writeProtected (disk s)"
    by (auto simp add: moveHeadUp_def Let_def split: if_splits option.splits)
next
  assume "moveHeadDown scale s = Some c"
  then show "writeProtected (disk c) = writeProtected (disk s)"
    by (auto simp add: moveHeadDown_def Let_def split: if_splits option.splits)
next
  show "writeProtected (disk (insertDisk other s)) = writeProtected (disk s)"
    by (simp add: insertDisk_def)
  show "writeProtected (disk (ejectDisk s)) = writeProtected (disk s)"
    by (simp add: ejectDisk_def)
  show "writeProtected (setWriteProtection w d) = w"
    by (simp add: setWriteProtection_def)
  show "writeProtected (toggleWriteProtection d) = (\<not> writeProtected d)"
    by (simp add: toggleWriteProtection_def)
next
  assume v: "vsyncHandler dflt s = Some v"
  {
    assume "diskChangeCounter s - 1 \<noteq> 0 \<or> insertionStatus s = DISK_PARTIALLY_EJECTED \<or>
       insertionStatus s = DISK_FULLY_EJECTED"
    with vsyncHandler_writeProtected(1)[OF v]
    show "writeProtected (disk v) = writeProtected (disk s)" by simp
  }
  {
    assume "diskChangeCounter s - 1 = 0 \<and> insertionStatus s = DISK_FULLY_INSERTED"
    with vsyncHandler_writeProtected(2)[OF v]
    show "writeProtected (disk v) = False" by simp
  }
  {
    assume "diskChangeCounter s - 1 = 0 \<and> insertionStatus s = DISK_PARTIALLY_INSERTED"
    with vsyncHandler_writeProtected(3)[OF v]
    show "\<exists>p. diskToInsert s = Some p \<and> writeProtected (disk v) = writeProtected p" by simp
  }
qed

lemma halfInserted_tick:
  "vsyncHandler exampleLength halfInserted =
     Some (halfInserted\<lparr>insertionStatus := DISK_FULLY_INSERTED, disk := gapDisk,
                        diskToInsert := None, diskChangeCounter := 0\<rparr>)"
  by (simp add: halfInserted_def vsyncHandler_def Let_def load_def save_def gapDisk_def
      initialDrive_def clearDisk_def)

lemma ejecting_tick:
  "vsyncHandler exampleLength ejecting =
     Some (ejecting\<lparr>insertionStatus := DISK_PARTIALLY_EJECTED,
                    disk := clearDisk exampleLength gapDisk, diskChangeCounter := 17\<rparr>)"
  by (simp add: ejecting_def vsyncHandler_def Let_def initialDrive_def)

text \<open>
  The claim as it is written fails on both edges: the mark of the drive's disk goes from
  false to true when the write-protected disk is fully inserted, and from true to false
  when it is pulled half out.
\<close>

theorem write_protection_counterexample:
  "map_option (writeProtected \<circ> disk) (vsyncHandler exampleLength halfInserted) = Some True \<and>
   writeProtected (disk halfInserted) = False \<and>
   map_option (writeProtected \<circ> disk) (vsyncHandler exampleLength ejecting) = Some False \<and>
   writeProtected (disk ejecting) = True"
  by (simp add: halfInserted_tick ejecting_tick)
     (simp add: halfInserted_def ejecting_def gapDisk_def initialDrive_def clearDisk_def)

theorem write_protection_frame_witness:
  "executeUF4 syncLostBefore = Some syncLostAfter \<and>
   writeProtected (disk syncLostAfter) = writeProtected (disk syncLostBefore) \<and>
   moveHeadUp (\<lambda>pos old new. Some (pos * new div old)) syncLostBefore =
     Some (syncLostBefore\<lparr>halftrack := 42\<rparr>) \<and>
   moveHeadDown (\<lambda>pos old new. Some (pos * new div old)) syncLostBefore =
     Some (syncLostBefore\<lparr>halftrack := 40\<rparr>) \<and>
   writeProtected (disk (syncLostBefore\<lparr>halftrack := 42\<rparr>)) =
     writeProtected (disk syncLostBefore) \<and>
   writeProtected (disk (syncLostBefore\<lparr>halftrack := 40\<rparr>)) =
     writeProtected (disk syncLostBefore) \<and>
   diskChangeCounter syncLostBefore - 1 \<noteq> 0 \<and>
   vsyncHandler exampleLength syncLostBefore =
     Some (syncLostBefore\<lparr>diskChangeCounter := - 1\<rparr>) \<and>
   writeProtected (disk (syncLostBefore\<lparr>diskChangeCounter := - 1\<rparr>)) =
     writeProtected (disk syncLostBefore) \<and>
   diskChangeCounter ejecting - 1 = 0 \<and> insertionStatus ejecting = DISK_FULLY_INSERTED \<and>
   writeProtected (disk (ejecting\<lparr>insertionStatus := DISK_PARTIALLY_EJECTED,
       disk := clearDisk exampleLength gapDisk, diskChangeCounter := 17\<rparr>)) = False \<and>
   diskChangeCounter halfInserted - 1 = 0 \<and>
   insertionStatus halfInserted = DISK_PARTIALLY_INSERTED \<and>
   diskToInsert halfInserted = Some gapDisk \<and>
   writeProtected (disk (halfInserted\<lparr>insertionStatus := DISK_FULLY_INSERTED, disk := gapDisk,
       diskToInsert := None, diskChangeCounter := 0\<rparr>)) = writeProtected gapDisk"
proof -
  let ?sc = "\<lambda>pos old new. Some (pos * new div (old::nat))"
  let ?u = "syncLostBefore\<lparr>halftrack := 42\<rparr>"
  let ?d = "syncLostBefore\<lparr>halftrack := 40\<rparr>"
  let ?i = "syncLostBefore\<lparr>diskChangeCounter := - 1\<rparr>"
  let ?e = "ejecting\<lparr>insertionStatus := DISK_PARTIALLY_EJECTED,
       disk := clearDisk exampleLength gapDisk, diskChangeCounter := 17\<rparr>"
  let ?h = "halfInserted\<lparr>insertionStatus := DISK_FULLY_INSERTED, disk := gapDisk,
       diskToInsert := None, diskChangeCounter := 0\<rparr>"
  have up: "moveHeadUp ?sc syncLostBefore = Some ?u"
    by (simp add: moveHeadUp_def syncLostBefore_def initialDrive_def isValidHeadPos_def
        lengthOfHalftrack_def clearDisk_def exampleLength_def Let_def)
  have down: "moveHeadDown ?sc syncLostBefore = Some ?d"
    by (simp add: moveHeadDown_def syncLostBefore_def initialDrive_def isValidHeadPos_def
        lengthOfHalftrack_def clearDisk_def exampleLength_def Let_def)
  have idle: "vsyncHandler exampleLength syncLostBefore = Some ?i"
    by (simp add: vsyncHandler_def syncLostBefore_def initialDrive_def Let_def)
  have c1: "diskChangeCounter syncLostBefore - 1 \<noteq> 0"
    by (simp add: syncLostBefore_def initialDrive_def)
  have c2: "diskChangeCounter ejecting - 1 = 0 \<and> insertionStatus ejecting = DISK_FULLY_INSERTED"
    by (simp add: ejecting_def initialDrive_def)
  have c3: "diskChangeCounter halfInserted - 1 = 0 \<and>
            insertionStatus halfInserted = DISK_PARTIALLY_INSERTED"
    and c4: "diskToInsert halfInserted = Some gapDisk"
    by (simp_all add: halfInserted_def initialDrive_def)
  note t1 = write_protection_frame[of syncLostBefore syncLostAfter ?sc ?u ?d None
      exampleLength ?i False gapDisk]
  note t2 = write_protection_frame[of ejecting syncLostAfter ?sc ?u ?d None
      exampleLength ?e False gapDisk]
  note t3 = write_protection_frame[of halfInserted syncLostAfter ?sc ?u ?d None
      exampleLength ?h False gapDisk]
  have "writeProtected (disk syncLostAfter) = writeProtected (disk syncLostBefore)"
    using t1 syncLost_step by simp
  moreover have "writeProtected (disk ?u) = writeProtected (disk syncLostBefore)"
    using t1 up by simp
  moreover have "writeProtected (disk ?d) = writeProtected (disk syncLostBefore)"
    using t1 down by simp
  moreover have "writeProtected (disk ?i) = writeProtected (disk syncLostBefore)"
    using t1 idle c1 by simp
  moreover have "writeProtected (disk ?e) = False"
    using t2 ejecting_tick c2 by simp
  moreover have "writeProtected (disk ?h) = writeProtected gapDisk"
    using t3 halfInserted_tick c3 c4 by simp
  ultimately show ?thesis
    using syncLost_step up down idle c1 c2 c3 c4 by (intro conjI) simp_all
qed

section \<open>Properties of head stepping\<close>

text \<open>
  What holds of a head step whatever the floating-point computation of the new offset
  gives: the halftrack moves by one and stays where it is at 84 (up) and at 1 (down), the
  disk is not touched, and a step that passes its assertion leaves a valid head position.
  Stepping up and then down from a halftrack between 1 and 84 returns to it.
\<close>

lemma head_step_halftrack:
  "moveHeadUp scale s = Some u \<Longrightarrow>
     halftrack u = (if halftrack s < 84 then halftrack s + 1 else halftrack s) \<and>
     disk u = disk s \<and> isValidHeadPos (disk u) (halftrack u) (offset u)"
  "moveHeadDown scale s = Some d \<Longrightarrow>
     halftrack d = (if 1 < halftrack s then halftrack s - 1 else halftrack s) \<and>
     disk d = disk s \<and> isValidHeadPos (disk d) (halftrack d) (offset d)"
  by (auto simp add: moveHeadUp_def moveHeadDown_def Let_def split: if_splits option.splits)

lemma head_step_up_down:
  assumes "1 < halftrack s" "halftrack s < 84"
    and "moveHeadUp scale s = Some u" "moveHeadDown scale u = Some d"
  shows "halftrack d = halftrack s"
  using assms head_step_halftrack(1)[of scale s u] head_step_halftrack(2)[of scale u d]
  by simp

section \<open>Properties of the execution loop\<close>









text \<open>
  The claim as it is written fails for a duration that takes the elapsed time to \<open>2^63\<close>:
  cast to \<open>i64\<close> it is negative, the loop does not run, and \<open>execute\<close> returns with both
  deadlines at 0, far before the elapsed time of \<open>2^63\<close>, and nothing fired.
\<close>

theorem execute_counterexample:
  "execute exampleDelay exampleCpuCycle (2 ^ 63) (initialDrive exampleLength) =
     Some ((initialDrive exampleLength)\<lparr>elapsedTime := 2 ^ 63\<rparr>) \<and>
   uint (elapsedTime ((initialDrive exampleLength)\<lparr>elapsedTime := 2 ^ 63\<rparr>)) = 2 ^ 63 \<and>
   sint (nextClock ((initialDrive exampleLength)\<lparr>elapsedTime := 2 ^ 63\<rparr>)) = 0 \<and>
   sint (nextCarry ((initialDrive exampleLength)\<lparr>elapsedTime := 2 ^ 63\<rparr>)) = 0"
proof -
  let ?t = "(initialDrive exampleLength)\<lparr>elapsedTime := 2 ^ 63\<rparr>"
  have n: "sint (2 ^ 63 :: 64 word) = - (2 ^ 63)"
    by simp
  have l: "execute_loop exampleDelay exampleCpuCycle ?t = Some ?t"
    by (subst execute_loop.simps) (simp add: initialDrive_def n)
  have x: "(initialDrive exampleLength)
      \<lparr>elapsedTime := elapsedTime (initialDrive exampleLength) + 2 ^ 63\<rparr> = ?t"
    by (simp add: initialDrive_def)
  have "execute exampleDelay exampleCpuCycle (2 ^ 63) (initialDrive exampleLength) = Some ?t"
    unfolding execute_def x by (rule l)
  moreover have "uint (elapsedTime ?t) = 2 ^ 63"
    by simp
  moreover have "sint (nextClock ?t) = 0" "sint (nextCarry ?t) = 0"
    by (simp_all add: initialDrive_def)
  ultimately show ?thesis
    by (intro conjI)
qed

section \<open>Properties of the T64 repair\<close>




















text \<open>
  The start offset is read with its low 16 bits only: an offset of \<open>0x000100A0\<close> in an
  archive of 192 bytes counts as \<open>0xA0\<close>, the item is repaired and \<open>repair\<close> returns true.
\<close>

lemma repair_reads_low_16_bits:
  "itemOffset t64Wide 0 = 0x000100A0 \<and> length t64Wide = 192 \<and>
   repair t64Wide =
     Some (Inr (True, t64Wide[0x24 := 2, 0x44 := 0x21, 0x45 := 0x08],
                [ChangingNumberOfItems 0 2, ChangingEndAddress 0 0xC3C6 0x0821]))"
  by code_simp

end
